theory Spec2Isabelle
  imports Complex_Main "HOL-Library.AList"
begin

chapter \<open>The authentication core of the prompt rewriter\<close>

text \<open>
  A shallow embedding of the rate limiter (\<^verbatim>\<open>lib/rate-limit.ts\<close>), the user store, lockout
  tracker, credential verifier and session codec (\<^verbatim>\<open>lib/auth.ts\<close> and its edge variant),
  the input sanitiser (\<^verbatim>\<open>lib/validation.ts\<close>) and the login and logout handlers. Process-wide
  maps are passed in and returned; every \<^verbatim>\<open>Date.now()\<close> and \<^verbatim>\<open>Math.random()\<close> that decides
  a branch is an argument; a thrown exception is the left summand of the result and every
  \<^verbatim>\<open>try\<close>/\<^verbatim>\<open>catch\<close> of the source is a \<open>tryCatch\<close> of the model. A call that waits for a
  promise is also given as the tasks that the event loop runs, so that the calls of
  several requests can be interleaved. Logging has no effect on results and is left out.
  The definitions come first, the properties after them.
\<close>

section \<open>Rate limiter (src/lib/rate-limit.ts)\<close>

text \<open>
  The module keeps one process-wide \<^verbatim>\<open>Map<string, number[]>\<close>. A JavaScript Map keeps its
  keys distinct and iterates in insertion order; \<^verbatim>\<open>set\<close> on a present key replaces the
  value in place and on an absent key appends. The model is an association list with
  exactly these operations (\<open>AList.update\<close>, \<open>AList.delete\<close>, \<open>map_of\<close>); the
  distinctness of the keys is the representation invariant \<open>distinct (map fst m)\<close>.
  Timestamps are the integers \<^verbatim>\<open>Date.now()\<close> returns (epoch milliseconds).
\<close>

type_synonym requests = "(string \<times> int list) list"

definition WINDOW_MS :: int where
  "WINDOW_MS = 60000"

definition MAX_REQUESTS :: nat where
  "MAX_REQUESTS = 10"

definition MAX_IPS_IN_MEMORY :: nat where
  "MAX_IPS_IN_MEMORY = 10000"

definition CLEANUP_BATCH_SIZE :: nat where
  "CLEANUP_BATCH_SIZE = 1000"

text \<open>\<^verbatim>\<open>timestamps.filter(t => now - t < WINDOW_MS)\<close>\<close>

definition recentOf :: "int \<Rightarrow> int list \<Rightarrow> int list" where
  "recentOf now timestamps = filter (\<lambda>t. now - t < WINDOW_MS) timestamps"

text \<open>
  The body of the \<^verbatim>\<open>for (const [ip, timestamps] of requests.entries())\<close> loop of
  \<^verbatim>\<open>cleanupOldEntries\<close>: the entries still to visit, the counter \<^verbatim>\<open>cleaned\<close>, the map.
  The \<^verbatim>\<open>break\<close> is tested at the end of every iteration.
\<close>

fun cleanupLoop :: "int \<Rightarrow> (string \<times> int list) list \<Rightarrow> nat \<Rightarrow> requests \<Rightarrow> requests" where
  "cleanupLoop now [] cleaned m = m"
| "cleanupLoop now ((ip, timestamps) # rest) cleaned m =
     (let recent = recentOf now timestamps;
          m' = (if length recent = 0 then AList.delete ip m else AList.update ip recent m);
          cleaned' = (if length recent = 0 then cleaned + 1 else cleaned)
      in if cleaned' \<ge> CLEANUP_BATCH_SIZE then m' else cleanupLoop now rest cleaned' m')"

definition cleanupOldEntries :: "int \<Rightarrow> requests \<Rightarrow> requests" where
  "cleanupOldEntries now m =
     (if length m > MAX_IPS_IN_MEMORY then cleanupLoop now m 0 m else m)"

text \<open>
  \<^verbatim>\<open>isRateLimited(ip)\<close>. Its environment is explicit: \<open>now\<close> is the function's own
  \<^verbatim>\<open>Date.now()\<close>, \<open>rnd\<close> the value of \<^verbatim>\<open>Math.random()\<close>, \<open>now2\<close> the \<^verbatim>\<open>Date.now()\<close> that
  \<^verbatim>\<open>cleanupOldEntries\<close> reads when it runs. The result is the returned boolean and the map
  afterwards.
\<close>

definition isRateLimited :: "int \<Rightarrow> real \<Rightarrow> int \<Rightarrow> string \<Rightarrow> requests \<Rightarrow> bool \<times> requests" where
  "isRateLimited now rnd now2 ip m =
     (let timestamps = (case map_of m ip of None \<Rightarrow> [] | Some ts \<Rightarrow> ts);
          recentTimestamps = recentOf now timestamps
      in if length recentTimestamps \<ge> MAX_REQUESTS then (True, m)
         else (let m1 = AList.update ip (recentTimestamps @ [now]) m;
                   m2 = (if rnd < 0.1 then cleanupOldEntries now2 m1 else m1)
               in (False, m2)))"

text \<open>
  A run of consecutive calls for one key. Each call carries its three readings
  \<open>(now, rnd, now2)\<close>; \<open>clockOk c es\<close> says that the clock never runs backwards over the
  run, starting from the reading \<open>c\<close>.
\<close>

fun isRateLimitedRun :: "string \<Rightarrow> (int \<times> real \<times> int) list \<Rightarrow> requests \<Rightarrow> bool list \<times> requests" where
  "isRateLimitedRun ip [] m = ([], m)"
| "isRateLimitedRun ip ((now, rnd, now2) # es) m =
     (case isRateLimited now rnd now2 ip m of
        (b, m1) \<Rightarrow> (case isRateLimitedRun ip es m1 of (bs, m2) \<Rightarrow> (b # bs, m2)))"

fun clockOk :: "int \<Rightarrow> (int \<times> real \<times> int) list \<Rightarrow> bool" where
  "clockOk c [] = True"
| "clockOk c ((now, rnd, now2) # es) = (c \<le> now \<and> now \<le> now2 \<and> clockOk now2 es)"

fun lastClock :: "int \<Rightarrow> (int \<times> real \<times> int) list \<Rightarrow> int" where
  "lastClock c [] = c"
| "lastClock c ((now, rnd, now2) # es) = lastClock now2 es"

text \<open>The timestamps of a key that count at time \<open>t\<close>.\<close>

definition activeAt :: "int \<Rightarrow> requests \<Rightarrow> string \<Rightarrow> int list" where
  "activeAt t m ip = recentOf t (case map_of m ip of None \<Rightarrow> [] | Some ts \<Rightarrow> ts)"

text \<open>Ten calls for one key inside one window, used to exercise the run below.\<close>

definition tenCalls :: "(int \<times> real \<times> int) list" where
  "tenCalls = [(1000, 0.5, 1000), (2000, 0.05, 2001), (3000, 0.5, 3000), (4000, 0.5, 4000),
               (5000, 0.5, 5000), (6000, 0.5, 6000), (7000, 0.5, 7000), (8000, 0.5, 8000),
               (9000, 0.5, 9000), (60999, 0.5, 60999)]"

section \<open>JavaScript values, exceptions and strings\<close>

text \<open>
  What \<^verbatim>\<open>JSON.parse\<close> returns and what the code then inspects with \<^verbatim>\<open>!x\<close>, \<^verbatim>\<open>typeof\<close> and
  property reads is a dynamically typed value. \<open>JUndefined\<close> is what a read of a missing
  property gives; \<^verbatim>\<open>JSON.parse\<close> never produces it. Numbers are integers: every number the
  program writes is one (\<^verbatim>\<open>Date.now()\<close> and sums of it with constants). Strings are
  8-bit character lists; the model covers ASCII text, bytes from 0x80 on are carried
  through unchanged.
\<close>

datatype jsval =
    JUndefined
  | JNull
  | JBool bool
  | JNum int
  | JStr string
  | JArr "jsval list"
  | JObj "(string \<times> jsval) list"

text \<open>
  A thrown exception is the left summand of a result. \<open>tryCatch\<close> is
  \<^verbatim>\<open>try { body } catch (error) { handler }\<close>: a handler that returns a value gives \<open>Inr\<close>,
  one that ends in \<^verbatim>\<open>throw error\<close> gives \<open>Inl\<close>.
\<close>

datatype error =
    TypeError
  | SyntaxError
  | IOError
  | BcryptError
  | RandomBytesError
  | TokenGenerationError
  | CookieStoreError
  | BodyParseError

definition bindE :: "error + 'a \<Rightarrow> ('a \<Rightarrow> error + 'b) \<Rightarrow> error + 'b" where
  "bindE m f = (case m of Inl e \<Rightarrow> Inl e | Inr x \<Rightarrow> f x)"

definition tryCatch :: "error + 'a \<Rightarrow> (error \<Rightarrow> error + 'a) \<Rightarrow> error + 'a" where
  "tryCatch body handler = (case body of Inl e \<Rightarrow> handler e | Inr x \<Rightarrow> Inr x)"

text \<open>\<^verbatim>\<open>!!v\<close>\<close>

fun truthy :: "jsval \<Rightarrow> bool" where
  "truthy JUndefined = False"
| "truthy JNull = False"
| "truthy (JBool b) = b"
| "truthy (JNum n) = (n \<noteq> 0)"
| "truthy (JStr s) = (s \<noteq> [])"
| "truthy (JArr xs) = True"
| "truthy (JObj kvs) = True"

text \<open>\<^verbatim>\<open>typeof v\<close>\<close>

fun typeOf :: "jsval \<Rightarrow> string" where
  "typeOf JUndefined = ''undefined''"
| "typeOf JNull = ''object''"
| "typeOf (JBool b) = ''boolean''"
| "typeOf (JNum n) = ''number''"
| "typeOf (JStr s) = ''string''"
| "typeOf (JArr xs) = ''object''"
| "typeOf (JObj kvs) = ''object''"

text \<open>
  \<^verbatim>\<open>v.name\<close> for the property names the code reads (\<^verbatim>\<open>users\<close>, \<^verbatim>\<open>username\<close>,
  \<^verbatim>\<open>passwordHash\<close>, \<^verbatim>\<open>displayName\<close>, \<^verbatim>\<open>token\<close>, \<^verbatim>\<open>expiresAt\<close>, \<^verbatim>\<open>password\<close>), none of which
  a prototype defines: reading from \<^verbatim>\<open>null\<close> or \<^verbatim>\<open>undefined\<close> throws a TypeError, an
  object gives its own property (the last one of that name, as \<^verbatim>\<open>JSON.parse\<close> keeps the
  last duplicate), every other value gives \<^verbatim>\<open>undefined\<close>.
\<close>

fun getProp :: "jsval \<Rightarrow> string \<Rightarrow> error + jsval" where
  "getProp JUndefined name = Inl TypeError"
| "getProp JNull name = Inl TypeError"
| "getProp (JObj kvs) name =
     Inr (case map_of (rev kvs) name of None \<Rightarrow> JUndefined | Some v \<Rightarrow> v)"
| "getProp v name = Inr JUndefined"

text \<open>\<^verbatim>\<open>String.prototype.toLowerCase\<close> and \<^verbatim>\<open>trim\<close> on ASCII text.\<close>

definition lowerChar :: "char \<Rightarrow> char" where
  "lowerChar c = (let n = (of_char c :: int) in if 65 \<le> n \<and> n \<le> 90 then char_of (n + 32) else c)"

definition toLowerCase :: "string \<Rightarrow> string" where
  "toLowerCase s = map lowerChar s"

definition isWhiteSpace :: "char \<Rightarrow> bool" where
  "isWhiteSpace c = (let n = (of_char c :: int) in (9 \<le> n \<and> n \<le> 13) \<or> n = 32)"

definition trim :: "string \<Rightarrow> string" where
  "trim s = rev (dropWhile isWhiteSpace (rev (dropWhile isWhiteSpace s)))"

text \<open>The string of a value already known to be one, and the number of a number.\<close>

fun strOf :: "jsval \<Rightarrow> string" where
  "strOf (JStr s) = s"
| "strOf v = []"

fun numOf :: "jsval \<Rightarrow> int" where
  "numOf (JNum n) = n"
| "numOf v = 0"

text \<open>
  \<^verbatim>\<open>v.toLowerCase()\<close> on a value that need not be a string: on \<^verbatim>\<open>undefined\<close> and \<^verbatim>\<open>null\<close>
  the property read throws, on any other non-string the call of \<^verbatim>\<open>undefined\<close> throws.
\<close>

fun callToLowerCase :: "jsval \<Rightarrow> error + string" where
  "callToLowerCase (JStr s) = Inr (toLowerCase s)"
| "callToLowerCase v = Inl TypeError"

section \<open>Platform codecs: JSON and base64url\<close>

text \<open>
  \<^verbatim>\<open>JSON.parse\<close>, \<^verbatim>\<open>JSON.stringify\<close> and \<^verbatim>\<open>Buffer\<close>'s base64url conversion belong to the
  platform, not to the repository. They are modelled here so that the functions of the
  repository can be run on concrete files and cookies. The JSON model covers ASCII text
  with integer numbers: a number with a fraction or an exponent and a \<^verbatim>\<open>\u\<close> escape from
  0x80 on are outside it and rejected. Objects keep their members in order, one per key
  (a repeated key replaces the value at its first position).
\<close>

definition isDigit :: "char \<Rightarrow> bool" where
  "isDigit c = (let n = (of_char c :: int) in 48 \<le> n \<and> n \<le> 57)"

definition isJsonSpace :: "char \<Rightarrow> bool" where
  "isJsonSpace c = (let n = (of_char c :: int) in n = 32 \<or> n = 9 \<or> n = 10 \<or> n = 13)"

definition skipWs :: "string \<Rightarrow> string" where
  "skipWs s = dropWhile isJsonSpace s"

definition hexVal :: "char \<Rightarrow> int option" where
  "hexVal c = (let n = (of_char c :: int) in
     if 48 \<le> n \<and> n \<le> 57 then Some (n - 48)
     else if 65 \<le> n \<and> n \<le> 70 then Some (n - 55)
     else if 97 \<le> n \<and> n \<le> 102 then Some (n - 87)
     else None)"

fun hex4 :: "string \<Rightarrow> int option" where
  "hex4 [a, b, c, d] =
     (case (hexVal a, hexVal b, hexVal c, hexVal d) of
        (Some x, Some y, Some z, Some w) \<Rightarrow> Some (((x * 16 + y) * 16 + z) * 16 + w)
      | _ \<Rightarrow> None)"
| "hex4 s = None"

definition unescape :: "char \<Rightarrow> char option" where
  "unescape e =
     (if e = CHR 0x22 \<or> e = CHR 0x5C \<or> e = CHR ''/'' then Some e
      else if e = CHR ''b'' then Some (CHR 0x08)
      else if e = CHR ''f'' then Some (CHR 0x0C)
      else if e = CHR ''n'' then Some (CHR 0x0A)
      else if e = CHR ''r'' then Some (CHR 0x0D)
      else if e = CHR ''t'' then Some (CHR 0x09)
      else None)"

text \<open>
  The characters of a string literal after its opening quote, up to the closing quote:
  the decoded string and the rest of the text.
\<close>

fun parseStr :: "string \<Rightarrow> string \<Rightarrow> (string \<times> string) option" where
  "parseStr acc [] = None"
| "parseStr acc (c # cs) =
     (if c = CHR 0x22 then Some (rev acc, cs)
      else if c = CHR 0x5C then
        (case cs of
           [] \<Rightarrow> None
         | e # r \<Rightarrow>
             if e = CHR ''u'' then
               (case hex4 (take 4 r) of
                  None \<Rightarrow> None
                | Some n \<Rightarrow> if n < 128 then parseStr (char_of n # acc) (drop 4 r) else None)
             else
               (case unescape e of
                  None \<Rightarrow> None
                | Some x \<Rightarrow> parseStr (x # acc) r))
      else if (of_char c :: int) < 32 then None
      else parseStr (c # acc) cs)"

definition digitsVal :: "string \<Rightarrow> int" where
  "digitsVal ds = foldl (\<lambda>a c. 10 * a + (of_char c - 48)) 0 ds"

definition parseNumber :: "string \<Rightarrow> (int \<times> string) option" where
  "parseNumber s =
     (let neg = (case s of [] \<Rightarrow> False | c # r \<Rightarrow> c = CHR ''-'');
          s1 = (if neg then tl s else s);
          ds = (case s1 of [] \<Rightarrow> [] | c # r \<Rightarrow> if c = CHR ''0'' then [c] else takeWhile isDigit s1);
          s2 = drop (length ds) s1
      in if ds = [] then None
         else if (case s2 of [] \<Rightarrow> False | c # r \<Rightarrow> c = CHR ''.'' \<or> c = CHR ''e'' \<or> c = CHR ''E'')
              then None
         else Some (if neg then - digitsVal ds else digitsVal ds, s2))"

text \<open>
  Recursive descent over the text. The first argument bounds the number of nested
  calls; \<open>JSON_parse\<close> starts with more than the text can use, since every call but the
  first follows a consumed character.
\<close>

fun parseValue :: "nat \<Rightarrow> string \<Rightarrow> (jsval \<times> string) option"
  and parseElems :: "nat \<Rightarrow> jsval list \<Rightarrow> string \<Rightarrow> (jsval \<times> string) option"
  and parseMembers :: "nat \<Rightarrow> (string \<times> jsval) list \<Rightarrow> string \<Rightarrow> (jsval \<times> string) option"
where
  "parseValue 0 s = None"
| "parseValue (Suc n) s =
     (case skipWs s of
        [] \<Rightarrow> None
      | c # cs \<Rightarrow>
          if c = CHR ''{'' then
            (case skipWs cs of
               [] \<Rightarrow> None
             | d # r \<Rightarrow> if d = CHR ''}'' then Some (JObj [], r) else parseMembers n [] cs)
          else if c = CHR ''['' then
            (case skipWs cs of
               [] \<Rightarrow> None
             | d # r \<Rightarrow> if d = CHR '']'' then Some (JArr [], r) else parseElems n [] cs)
          else if c = CHR 0x22 then
            (case parseStr [] cs of None \<Rightarrow> None | Some (str, r) \<Rightarrow> Some (JStr str, r))
          else if take 4 (c # cs) = ''true'' then Some (JBool True, drop 4 (c # cs))
          else if take 5 (c # cs) = ''false'' then Some (JBool False, drop 5 (c # cs))
          else if take 4 (c # cs) = ''null'' then Some (JNull, drop 4 (c # cs))
          else (case parseNumber (c # cs) of None \<Rightarrow> None | Some (i, r) \<Rightarrow> Some (JNum i, r)))"
| "parseElems 0 acc s = None"
| "parseElems (Suc n) acc s =
     (case parseValue n s of
        None \<Rightarrow> None
      | Some (v, r) \<Rightarrow>
          (case skipWs r of
             [] \<Rightarrow> None
           | d # r' \<Rightarrow>
               if d = CHR '','' then parseElems n (acc @ [v]) r'
               else if d = CHR '']'' then Some (JArr (acc @ [v]), r')
               else None))"
| "parseMembers 0 acc s = None"
| "parseMembers (Suc n) acc s =
     (case skipWs s of
        [] \<Rightarrow> None
      | q # cs \<Rightarrow>
          if q \<noteq> CHR 0x22 then None
          else
            (case parseStr [] cs of
               None \<Rightarrow> None
             | Some (k, r) \<Rightarrow>
                 (case skipWs r of
                    [] \<Rightarrow> None
                  | col # r1 \<Rightarrow>
                      if col \<noteq> CHR '':'' then None
                      else
                        (case parseValue n r1 of
                           None \<Rightarrow> None
                         | Some (v, r2) \<Rightarrow>
                             (case skipWs r2 of
                                [] \<Rightarrow> None
                              | d # r3 \<Rightarrow>
                                  if d = CHR '','' then parseMembers n (AList.update k v acc) r3
                                  else if d = CHR ''}'' then Some (JObj (AList.update k v acc), r3)
                                  else None)))))"

text \<open>\<^verbatim>\<open>JSON.parse(text)\<close>; \<open>None\<close> is the SyntaxError it throws.\<close>

definition JSON_parse :: "string \<Rightarrow> jsval option" where
  "JSON_parse s =
     (case parseValue (2 * length s + 2) s of
        None \<Rightarrow> None
      | Some (v, r) \<Rightarrow> if skipWs r = [] then Some v else None)"

text \<open>\<^verbatim>\<open>JSON.stringify\<close> without indentation.\<close>

definition hexDigit :: "int \<Rightarrow> char" where
  "hexDigit n = (if n < 10 then char_of (48 + n) else char_of (87 + n))"

definition escapeChar :: "char \<Rightarrow> string" where
  "escapeChar c = (let n = (of_char c :: int) in
     if c = CHR 0x22 then [CHR 0x5C, CHR 0x22]
     else if c = CHR 0x5C then [CHR 0x5C, CHR 0x5C]
     else if n = 8 then [CHR 0x5C, CHR ''b'']
     else if n = 12 then [CHR 0x5C, CHR ''f'']
     else if n = 10 then [CHR 0x5C, CHR ''n'']
     else if n = 13 then [CHR 0x5C, CHR ''r'']
     else if n = 9 then [CHR 0x5C, CHR ''t'']
     else if n < 32 then [CHR 0x5C, CHR ''u'', CHR ''0'', CHR ''0'', hexDigit (n div 16), hexDigit (n mod 16)]
     else [c])"

definition quote :: "string \<Rightarrow> string" where
  "quote s = CHR 0x22 # concat (map escapeChar s) @ [CHR 0x22]"

function showDigits :: "int \<Rightarrow> string" where
  "showDigits n =
     (if n < 10 then [char_of (48 + n)] else showDigits (n div 10) @ [char_of (48 + n mod 10)])"
  by pat_completeness auto
termination
  by (relation "measure nat") auto

declare showDigits.simps [simp del]

definition showInt :: "int \<Rightarrow> string" where
  "showInt i = (if i < 0 then CHR ''-'' # showDigits (- i) else showDigits i)"

fun joinWith :: "string \<Rightarrow> string list \<Rightarrow> string" where
  "joinWith sep [] = []"
| "joinWith sep [x] = x"
| "joinWith sep (x # y # ys) = x @ sep @ joinWith sep (y # ys)"

fun JSON_stringify :: "jsval \<Rightarrow> string"
  and stringifyMembers :: "(string \<times> jsval) list \<Rightarrow> string list"
where
  "JSON_stringify JUndefined = ''null''"
| "JSON_stringify JNull = ''null''"
| "JSON_stringify (JBool b) = (if b then ''true'' else ''false'')"
| "JSON_stringify (JNum n) = showInt n"
| "JSON_stringify (JStr s) = quote s"
| "JSON_stringify (JArr xs) = ''['' @ joinWith '','' (map JSON_stringify xs) @ '']''"
| "JSON_stringify (JObj kvs) = ''{'' @ joinWith '','' (stringifyMembers kvs) @ ''}''"
| "stringifyMembers [] = []"
| "stringifyMembers ((k, v) # kvs) =
     (if v = JUndefined then stringifyMembers kvs
      else (quote k @ '':'' @ JSON_stringify v) # stringifyMembers kvs)"

text \<open>
  \<^verbatim>\<open>Buffer.from(text, 'base64url')\<close> as Node decodes it: both alphabets are accepted,
  \<^verbatim>\<open>=\<close> ends the input, any other character outside the alphabets is skipped, and a
  final group of two or three characters gives one or two bytes. It never throws.
  \<^verbatim>\<open>.toString('utf-8')\<close> is the identity on ASCII.
\<close>

definition unbase64 :: "char \<Rightarrow> int option" where
  "unbase64 c = (let n = (of_char c :: int) in
     if 65 \<le> n \<and> n \<le> 90 then Some (n - 65)
     else if 97 \<le> n \<and> n \<le> 122 then Some (n - 71)
     else if 48 \<le> n \<and> n \<le> 57 then Some (n + 4)
     else if c = CHR ''+'' \<or> c = CHR ''-'' then Some 62
     else if c = CHR ''/'' \<or> c = CHR ''_'' then Some 63
     else None)"

fun sextetsToBytes :: "int list \<Rightarrow> int list" where
  "sextetsToBytes (a # b # c # d # rest) =
     (a * 4 + b div 16) # ((b mod 16) * 16 + c div 4) # ((c mod 4) * 64 + d) # sextetsToBytes rest"
| "sextetsToBytes [a, b, c] = [a * 4 + b div 16, (b mod 16) * 16 + c div 4]"
| "sextetsToBytes [a, b] = [a * 4 + b div 16]"
| "sextetsToBytes s = []"

definition base64urlDecode :: "string \<Rightarrow> string" where
  "base64urlDecode s =
     map char_of (sextetsToBytes (List.map_filter unbase64 (takeWhile (\<lambda>c. c \<noteq> CHR ''='') s)))"

text \<open>\<^verbatim>\<open>Buffer.from(text).toString('base64url')\<close>: no padding.\<close>

definition base64Char :: "int \<Rightarrow> char" where
  "base64Char n =
     (if n < 26 then char_of (65 + n)
      else if n < 52 then char_of (71 + n)
      else if n < 62 then char_of (n - 4)
      else if n = 62 then CHR ''-''
      else CHR ''_'')"

fun bytesToSextets :: "int list \<Rightarrow> int list" where
  "bytesToSextets (a # b # c # rest) =
     (a div 4) # ((a mod 4) * 16 + b div 16) # ((b mod 16) * 4 + c div 64) # (c mod 64) # bytesToSextets rest"
| "bytesToSextets [a, b] = [a div 4, (a mod 4) * 16 + b div 16, (b mod 16) * 4]"
| "bytesToSextets [a] = [a div 4, (a mod 4) * 16]"
| "bytesToSextets [] = []"

definition base64urlEncode :: "string \<Rightarrow> string" where
  "base64urlEncode s = map base64Char (bytesToSextets (map of_char s))"

text \<open>
  Auxiliary notions for reasoning about the codecs: where a number literal may end,
  where an object member may end, the values without nesting, the text of one member,
  and what an object reads back as after \<^verbatim>\<open>JSON.stringify\<close> has dropped its undefined
  members.
\<close>

definition numberEnd :: "string \<Rightarrow> bool" where
  "numberEnd rest =
     (case rest of [] \<Rightarrow> True
      | c # r \<Rightarrow> \<not> isDigit c \<and> c \<noteq> CHR ''.'' \<and> c \<noteq> CHR ''e'' \<and> c \<noteq> CHR ''E'')"

fun flatValue :: "jsval \<Rightarrow> bool" where
  "flatValue (JStr s) = True"
| "flatValue (JNum i) = True"
| "flatValue v = False"

definition memberText :: "string \<times> jsval \<Rightarrow> string" where
  "memberText m = quote (fst m) @ '':'' @ JSON_stringify (snd m)"

definition memberEnd :: "string \<Rightarrow> bool" where
  "memberEnd rest = (case rest of [] \<Rightarrow> False | c # r \<Rightarrow> c = CHR '','' \<or> c = CHR ''}'')"

fun readBack :: "jsval \<Rightarrow> jsval" where
  "readBack (JObj kvs) = JObj (filter (\<lambda>m. snd m \<noteq> JUndefined) kvs)"
| "readBack v = v"

section \<open>User store and lockout tracker (src/lib/auth.ts)\<close>

definition SESSION_DURATION_MS :: int where
  "SESSION_DURATION_MS = 24 * 60 * 60 * 1000"

text \<open>\<^verbatim>\<open>RATE_LIMIT_CONFIG\<close>\<close>

definition maxAttempts :: int where
  "maxAttempts = 5"

definition lockoutDuration :: int where
  "lockoutDuration = 15 * 60 * 1000"

definition attemptWindow :: int where
  "attemptWindow = 5 * 60 * 1000"

text \<open>
  The file \<^verbatim>\<open>users.json\<close> as \<^verbatim>\<open>loadUsers\<close> meets it: missing (\<^verbatim>\<open>existsSync\<close> is false),
  present but not readable (\<^verbatim>\<open>readFileSync\<close> throws), or present with a content.
\<close>

datatype usersFile = Absent | Unreadable | Content string

text \<open>
  The callback of \<^verbatim>\<open>data.users.filter\<close>, run over the array: an entry that is \<^verbatim>\<open>null\<close>
  makes the read of \<^verbatim>\<open>user.username\<close> throw, which ends the whole filter.
\<close>

fun validUsers :: "jsval list \<Rightarrow> error + jsval list" where
  "validUsers [] = Inr []"
| "validUsers (user # rest) =
     bindE (getProp user ''username'') (\<lambda>username.
     bindE (if \<not> truthy username then Inr True
            else bindE (getProp user ''passwordHash'') (\<lambda>passwordHash. Inr (\<not> truthy passwordHash)))
       (\<lambda>invalid.
     bindE (validUsers rest) (\<lambda>kept.
       if invalid then Inr kept else Inr (user # kept))))"

definition loadUsersBody :: "usersFile \<Rightarrow> error + jsval list" where
  "loadUsersBody file =
     (case file of
        Absent \<Rightarrow> Inr []
      | Unreadable \<Rightarrow> Inl IOError
      | Content fileContent \<Rightarrow>
          if trim fileContent = [] then Inr []
          else
            (case JSON_parse fileContent of
               None \<Rightarrow> Inl SyntaxError
             | Some data \<Rightarrow>
                 if \<not> truthy data then Inr []
                 else
                   bindE (getProp data ''users'') (\<lambda>users.
                     case users of JArr entries \<Rightarrow> validUsers entries | _ \<Rightarrow> Inr [])))"

text \<open>\<^verbatim>\<open>loadUsers\<close>: the body inside \<^verbatim>\<open>try\<close>, and \<^verbatim>\<open>catch\<close> returning \<^verbatim>\<open>[]\<close>.\<close>

definition loadUsers :: "usersFile \<Rightarrow> error + jsval list" where
  "loadUsers file = tryCatch (loadUsersBody file) (\<lambda>error. Inr [])"

text \<open>\<^verbatim>\<open>users.find(u => u.username.toLowerCase().trim() === normalizedUsername)\<close>\<close>

fun findFirst :: "string \<Rightarrow> jsval list \<Rightarrow> error + jsval" where
  "findFirst normalizedUsername [] = Inr JUndefined"
| "findFirst normalizedUsername (u # users) =
     bindE (getProp u ''username'') (\<lambda>name.
     bindE (callToLowerCase name) (\<lambda>lowered.
       if trim lowered = normalizedUsername then Inr u
       else findFirst normalizedUsername users))"

text \<open>\<^verbatim>\<open>findUser\<close>; \<open>None\<close> is \<^verbatim>\<open>null\<close>.\<close>

definition findUser :: "usersFile \<Rightarrow> string \<Rightarrow> error + jsval option" where
  "findUser file username =
     bindE (loadUsers file) (\<lambda>users.
     bindE (findFirst (trim (toLowerCase username)) users) (\<lambda>user.
       Inr (if truthy user then Some user else None)))"

text \<open>
  An entry that the filter of \<^verbatim>\<open>loadUsers\<close> keeps: it has a truthy \<^verbatim>\<open>username\<close> and a
  truthy \<^verbatim>\<open>passwordHash\<close>.
\<close>

definition fieldTruthy :: "jsval \<Rightarrow> string \<Rightarrow> bool" where
  "fieldTruthy v name = (case getProp v name of Inl e \<Rightarrow> False | Inr x \<Rightarrow> truthy x)"

definition validEntry :: "jsval \<Rightarrow> bool" where
  "validEntry user = (fieldTruthy user ''username'' \<and> fieldTruthy user ''passwordHash'')"

text \<open>
  One entry of the map \<^verbatim>\<open>loginAttempts\<close>; \<^verbatim>\<open>lockedUntil\<close> is optional. The map itself is
  keyed by the lower-cased user name (not trimmed).
\<close>

record attempts =
  count :: int
  lastAttempt :: int
  lockedUntil :: "int option"

type_synonym loginAttempts = "string \<rightharpoonup> attempts"

text \<open>\<^verbatim>\<open>attempts.lockedUntil && P(attempts.lockedUntil)\<close>: an absent field and 0 are falsy.\<close>

definition lockedUntilAnd :: "attempts \<Rightarrow> (int \<Rightarrow> bool) \<Rightarrow> bool" where
  "lockedUntilAnd a P = (case lockedUntil a of None \<Rightarrow> False | Some u \<Rightarrow> u \<noteq> 0 \<and> P u)"

text \<open>
  \<^verbatim>\<open>isLockedOut\<close>: \<open>now1\<close> and \<open>now2\<close> are the \<^verbatim>\<open>Date.now()\<close> of its first and of its
  second test (the one in between only feeds the log).
\<close>

definition isLockedOut :: "int \<Rightarrow> int \<Rightarrow> string \<Rightarrow> loginAttempts \<Rightarrow> bool \<times> loginAttempts" where
  "isLockedOut now1 now2 username st =
     (case st (toLowerCase username) of
        None \<Rightarrow> (False, st)
      | Some a \<Rightarrow>
          if lockedUntilAnd a (\<lambda>u. now1 < u) then (True, st)
          else if lockedUntilAnd a (\<lambda>u. now2 \<ge> u) then (False, st(toLowerCase username := None))
          else (False, st))"

record lockoutInfo =
  lockedOut :: bool
  remainingSeconds :: "int option"

definition recordFailedAttempt :: "int \<Rightarrow> string \<Rightarrow> loginAttempts \<Rightarrow> lockoutInfo \<times> loginAttempts" where
  "recordFailedAttempt now username st =
     (let normalizedUsername = toLowerCase username in
      case st normalizedUsername of
        None \<Rightarrow>
          (\<lparr>lockedOut = False, remainingSeconds = None\<rparr>,
           st(normalizedUsername \<mapsto> \<lparr>count = 1, lastAttempt = now, lockedUntil = None\<rparr>))
      | Some a \<Rightarrow>
          if now - lastAttempt a > attemptWindow then
            (\<lparr>lockedOut = False, remainingSeconds = None\<rparr>,
             st(normalizedUsername \<mapsto> a\<lparr>count := 1, lastAttempt := now, lockedUntil := None\<rparr>))
          else
            (let a1 = a\<lparr>count := count a + 1, lastAttempt := now\<rparr> in
             if count a1 \<ge> maxAttempts then
               (\<lparr>lockedOut = True, remainingSeconds = Some ((lockoutDuration + 999) div 1000)\<rparr>,
                st(normalizedUsername \<mapsto> a1\<lparr>lockedUntil := Some (now + lockoutDuration)\<rparr>))
             else
               (\<lparr>lockedOut = False, remainingSeconds = None\<rparr>, st(normalizedUsername \<mapsto> a1))))"

definition clearFailedAttempts :: "string \<Rightarrow> loginAttempts \<Rightarrow> loginAttempts" where
  "clearFailedAttempts username st = st(toLowerCase username := None)"

section \<open>Credential verification (src/lib/auth.ts)\<close>

text \<open>
  \<^verbatim>\<open>bcrypt.compare(password, hash)\<close> is a parameter: it answers or throws (on a hash that
  is not a string, for one). The three clock readings of one \<^verbatim>\<open>verifyCredentials\<close> call
  are those of \<^verbatim>\<open>isLockedOut\<close> and, after the comparison, of \<^verbatim>\<open>recordFailedAttempt\<close>.
  The state is the map \<^verbatim>\<open>loginAttempts\<close>; what was written before an exception stays
  written.
\<close>

type_synonym bcryptCompare = "string \<Rightarrow> jsval \<Rightarrow> error + bool"

definition verifyCredentialsBody ::
  "usersFile \<Rightarrow> bcryptCompare \<Rightarrow> int \<times> int \<times> int \<Rightarrow> jsval \<Rightarrow> jsval \<Rightarrow> loginAttempts
     \<Rightarrow> (error + jsval option) \<times> loginAttempts" where
  "verifyCredentialsBody file compare clock username password st =
     (case clock of (now1, now2, now3) \<Rightarrow>
      if \<not> truthy username \<or> typeOf username \<noteq> ''string'' \<or> length (trim (strOf username)) = 0
      then (Inr None, st)
      else if \<not> truthy password \<or> typeOf password \<noteq> ''string'' \<or> length (strOf password) = 0
      then (Inr None, st)
      else
        (case isLockedOut now1 now2 (strOf username) st of
           (True, st1) \<Rightarrow> (Inr None, st1)
         | (False, st1) \<Rightarrow>
             (case findUser file (strOf username) of
                Inl e \<Rightarrow> (Inl e, st1)
              | Inr None \<Rightarrow> (Inr None, snd (recordFailedAttempt now3 (strOf username) st1))
              | Inr (Some user) \<Rightarrow>
                  (case bindE (getProp user ''passwordHash'') (compare (strOf password)) of
                     Inl e \<Rightarrow> (Inl e, st1)
                   | Inr isPasswordValid \<Rightarrow>
                       if \<not> isPasswordValid
                       then (Inr None, snd (recordFailedAttempt now3 (strOf username) st1))
                       else (Inr (Some user), clearFailedAttempts (strOf username) st1)))))"

definition verifyCredentials ::
  "usersFile \<Rightarrow> bcryptCompare \<Rightarrow> int \<times> int \<times> int \<Rightarrow> jsval \<Rightarrow> jsval \<Rightarrow> loginAttempts
     \<Rightarrow> (error + jsval option) \<times> loginAttempts" where
  "verifyCredentials file compare clock username password st =
     (case verifyCredentialsBody file compare clock username password st of
        (r, st') \<Rightarrow> (tryCatch r (\<lambda>error. Inr None), st'))"

text \<open>A run of consecutive \<^verbatim>\<open>verifyCredentials\<close> calls for one user name.\<close>

fun verifyRun ::
  "usersFile \<Rightarrow> bcryptCompare \<Rightarrow> string \<Rightarrow> ((int \<times> int \<times> int) \<times> string) list \<Rightarrow> loginAttempts
     \<Rightarrow> (error + jsval option) list \<times> loginAttempts" where
  "verifyRun file compare username [] st = ([], st)"
| "verifyRun file compare username ((clock, password) # calls) st =
     (case verifyCredentials file compare clock (JStr username) (JStr password) st of
        (r, st1) \<Rightarrow>
          (case verifyRun file compare username calls st1 of (rs, st2) \<Rightarrow> (r # rs, st2)))"

text \<open>
  The clock over such a run, from the reading \<open>c\<close> and the time \<open>l\<close> of the previous
  recorded failure: it never runs backwards, and every call records its failure at most
  \<open>attemptWindow\<close> after the previous one.
\<close>

fun inWindow :: "int \<Rightarrow> int \<Rightarrow> ((int \<times> int \<times> int) \<times> string) list \<Rightarrow> bool" where
  "inWindow c l [] = True"
| "inWindow c l (((now1, now2, now3), password) # calls) =
     (c \<le> now1 \<and> now1 \<le> now2 \<and> now2 \<le> now3 \<and> now3 - l \<le> attemptWindow \<and> inWindow now3 now3 calls)"

text \<open>
  A run of failures that starts with no earlier failure on record: the first call is
  free, every later one stays in the window of the one before it.
\<close>

definition failuresInWindow :: "((int \<times> int \<times> int) \<times> string) list \<Rightarrow> bool" where
  "failuresInWindow calls =
     (case calls of
        [] \<Rightarrow> True
      | ((now1, now2, now3), password) # rest \<Rightarrow>
          0 \<le> now1 \<and> now1 \<le> now2 \<and> now2 \<le> now3 \<and> inWindow now3 now3 rest)"

text \<open>The time at which the last call of a run records its failure.\<close>

fun lastRecord :: "int \<Rightarrow> ((int \<times> int \<times> int) \<times> string) list \<Rightarrow> int" where
  "lastRecord l [] = l"
| "lastRecord l (((now1, now2, now3), password) # calls) = lastRecord now3 calls"

text \<open>
  A bcrypt for running the verifier on concrete credentials. The key is the one bcryptjs
  feeds to the Blowfish key schedule: the bytes of the password followed by a NUL,
  repeated cyclically over the 72 bytes that the schedule reads. So a password and, for
  one, the same password followed by a NUL and itself have one key, and bytes after the
  72nd do not count. The digest is idealised: it shows its key, and \<^verbatim>\<open>compare\<close> holds
  exactly for the passwords that have the key of the hashed one. A hash that is not a
  string makes it throw.
\<close>

definition bcryptKey :: "string \<Rightarrow> string" where
  "bcryptKey password = take 72 (concat (replicate 72 (password @ [CHR 0x00])))"

definition idealHash :: "string \<Rightarrow> string" where
  "idealHash password = ''$2b$12$'' @ bcryptKey password"

fun idealCompare :: bcryptCompare where
  "idealCompare password (JStr hash) = Inr (hash = idealHash password)"
| "idealCompare password v = Inl BcryptError"

text \<open>The store \<^verbatim>\<open>{"users":[{"username":"alice","passwordHash":hash("pw12345678")}]}\<close>.\<close>

definition aliceRecord :: jsval where
  "aliceRecord = JObj [(''username'', JStr ''alice''), (''passwordHash'', JStr (idealHash ''pw12345678''))]"

definition aliceFile :: usersFile where
  "aliceFile = Content (JSON_stringify (JObj [(''users'', JArr [aliceRecord])]))"

text \<open>Five calls with wrong passwords, each at most five minutes after the one before.\<close>

definition fiveWrong :: "((int \<times> int \<times> int) \<times> string) list" where
  "fiveWrong =
     [((1000, 1000, 3500), ''wrong-pw-1''), ((4000, 4000, 6500), ''wrong-pw-2''),
      ((60000, 60000, 62500), '' pw12345678''), ((100000, 100001, 102500), ''PW12345678''),
      ((400000, 400000, 402500), ''pw1234567'')]"

text \<open>A users file with one complete entry, one without a password hash and a number.\<close>

definition mixedEntries :: "jsval list" where
  "mixedEntries = [aliceRecord, JObj [(''username'', JStr ''bob'')], JNum 7]"

definition mixedFile :: string where
  "mixedFile = JSON_stringify (JObj [(''users'', JArr mixedEntries)])"

text \<open>Consecutive \<^verbatim>\<open>recordFailedAttempt\<close> calls for one user name, at the given moments.\<close>

fun recordRun :: "string \<Rightarrow> int list \<Rightarrow> loginAttempts \<Rightarrow> loginAttempts" where
  "recordRun username [] st = st"
| "recordRun username (now # moments) st = recordRun username moments (snd (recordFailedAttempt now username st))"

text \<open>Every time of the list is at most \<open>attemptWindow\<close> after the one before it, \<open>l\<close> first.\<close>

fun gapsInWindow :: "int \<Rightarrow> int list \<Rightarrow> bool" where
  "gapsInWindow l [] = True"
| "gapsInWindow l (now # moments) = (now - l \<le> attemptWindow \<and> gapsInWindow now moments)"

text \<open>A users file whose array starts with \<^verbatim>\<open>null\<close>.\<close>

definition nullEntryFile :: string where
  "nullEntryFile = JSON_stringify (JObj [(''users'', JArr [JNull, aliceRecord])])"

section \<open>Concurrent verifications (src/lib/auth.ts on the event loop)\<close>

text \<open>
  \<^verbatim>\<open>verifyCredentials\<close> is an \<^verbatim>\<open>async\<close> function with one \<^verbatim>\<open>await\<close>, that of
  \<^verbatim>\<open>bcrypt.compare\<close>. The event loop runs a call as two tasks, each to completion: from
  the call to the \<^verbatim>\<open>await\<close>, and from the settling of the comparison to the return.
  Tasks of other requests may run in between, on the same map \<^verbatim>\<open>loginAttempts\<close>.

  The first task either returns (\<^verbatim>\<open>null\<close> in every case) or is left waiting for the
  comparison it has started, with the user record it found. An exception in it is
  caught by the \<^verbatim>\<open>catch\<close> of \<^verbatim>\<open>verifyCredentials\<close>, which returns \<^verbatim>\<open>null\<close>. The reading
  \<open>now3\<close> is that of \<^verbatim>\<open>recordFailedAttempt\<close> for a user name that is not in the store.
\<close>

datatype started = Returned "jsval option" | Awaiting jsval "error + bool"

definition verifyCredentialsStart ::
  "usersFile \<Rightarrow> bcryptCompare \<Rightarrow> int \<times> int \<times> int \<Rightarrow> jsval \<Rightarrow> jsval \<Rightarrow> loginAttempts
     \<Rightarrow> started \<times> loginAttempts" where
  "verifyCredentialsStart file compare clock username password st =
     (case clock of (now1, now2, now3) \<Rightarrow>
      if \<not> truthy username \<or> typeOf username \<noteq> ''string'' \<or> length (trim (strOf username)) = 0
      then (Returned None, st)
      else if \<not> truthy password \<or> typeOf password \<noteq> ''string'' \<or> length (strOf password) = 0
      then (Returned None, st)
      else
        (case isLockedOut now1 now2 (strOf username) st of
           (True, st1) \<Rightarrow> (Returned None, st1)
         | (False, st1) \<Rightarrow>
             (case findUser file (strOf username) of
                Inl e \<Rightarrow> (Returned None, st1)
              | Inr None \<Rightarrow> (Returned None, snd (recordFailedAttempt now3 (strOf username) st1))
              | Inr (Some user) \<Rightarrow>
                  (case getProp user ''passwordHash'' of
                     Inl e \<Rightarrow> (Returned None, st1)
                   | Inr hash \<Rightarrow> (Awaiting user (compare (strOf password) hash), st1)))))"

text \<open>
  The second task, run when the comparison has settled, with a value or an exception:
  it records the failure at its own clock reading \<open>now3\<close> or clears the entry.
\<close>

definition verifyCredentialsResume ::
  "int \<Rightarrow> jsval \<Rightarrow> jsval \<Rightarrow> error + bool \<Rightarrow> loginAttempts \<Rightarrow> jsval option \<times> loginAttempts" where
  "verifyCredentialsResume now3 username user settled st =
     (case settled of
        Inl e \<Rightarrow> (None, st)
      | Inr isPasswordValid \<Rightarrow>
          if \<not> isPasswordValid then (None, snd (recordFailedAttempt now3 (strOf username) st))
          else (Some user, clearFailedAttempts (strOf username) st))"












section \<open>Session codec (src/lib/auth.ts and the edge variant)\<close>

text \<open>
  \<^verbatim>\<open>decodeSession\<close> of \<^verbatim>\<open>lib/auth.ts\<close>, at the clock reading \<open>now\<close>. The three property
  reads of the structure test are made up front: they read one and the same value, so
  either the first of them throws (the value is \<^verbatim>\<open>null\<close>) or none does.
\<close>

definition decodeSessionBody :: "usersFile \<Rightarrow> int \<Rightarrow> string \<Rightarrow> error + jsval option" where
  "decodeSessionBody file now cookieValue =
     (let sessionJson = base64urlDecode cookieValue in
      case JSON_parse sessionJson of
        None \<Rightarrow> Inl SyntaxError
      | Some session \<Rightarrow>
          bindE (getProp session ''username'') (\<lambda>username.
          bindE (getProp session ''token'') (\<lambda>token.
          bindE (getProp session ''expiresAt'') (\<lambda>expiresAt.
            if \<not> truthy username \<or> \<not> truthy token \<or> \<not> truthy expiresAt then Inr None
            else if typeOf username \<noteq> ''string'' \<or> typeOf expiresAt \<noteq> ''number'' then Inr None
            else if now > numOf expiresAt then Inr None
            else
              bindE (findUser file (strOf username)) (\<lambda>user.
                if user = None then Inr None else Inr (Some session))))))"

definition decodeSession :: "usersFile \<Rightarrow> int \<Rightarrow> string \<Rightarrow> error + jsval option" where
  "decodeSession file now cookieValue =
     tryCatch (decodeSessionBody file now cookieValue) (\<lambda>error. Inr None)"

text \<open>\<^verbatim>\<open>decodeSession\<close> of the edge module, which has no access to the users file.\<close>

definition decodeSessionEdgeBody :: "int \<Rightarrow> string \<Rightarrow> error + jsval option" where
  "decodeSessionEdgeBody now cookieValue =
     (let sessionJson = base64urlDecode cookieValue in
      case JSON_parse sessionJson of
        None \<Rightarrow> Inl SyntaxError
      | Some session \<Rightarrow>
          bindE (getProp session ''username'') (\<lambda>username.
          bindE (getProp session ''token'') (\<lambda>token.
          bindE (getProp session ''expiresAt'') (\<lambda>expiresAt.
            if \<not> truthy username \<or> \<not> truthy token \<or> \<not> truthy expiresAt then Inr None
            else if typeOf username \<noteq> ''string'' \<or> typeOf expiresAt \<noteq> ''number'' then Inr None
            else if now > numOf expiresAt then Inr None
            else Inr (Some session)))))"

definition decodeSessionEdge :: "int \<Rightarrow> string \<Rightarrow> error + jsval option" where
  "decodeSessionEdge now cookieValue =
     tryCatch (decodeSessionEdgeBody now cookieValue) (\<lambda>error. Inr None)"

text \<open>
  \<^verbatim>\<open>generateSessionToken\<close>: \<open>randomBytes\<close> is what
  \<^verbatim>\<open>crypto.randomBytes(32).toString('base64url')\<close> gives, a string or an exception; the
  handler throws a new error.
\<close>

definition generateSessionToken :: "error + string \<Rightarrow> error + string" where
  "generateSessionToken randomBytes = tryCatch randomBytes (\<lambda>error. Inl TokenGenerationError)"

text \<open>The cookie \<^verbatim>\<open>auth_session\<close> as \<^verbatim>\<open>cookieStore.set\<close> writes it, and its deletion.\<close>

record sessionCookie =
  cookieValue :: string
  httpOnly :: bool
  secure :: bool
  sameSite :: string
  expires :: int
  path :: string

datatype cookieEffect = CookieSet sessionCookie | CookieDeleted

text \<open>The structure \<^verbatim>\<open>sessionData\<close> that \<^verbatim>\<open>createSession\<close> serialises.\<close>

definition sessionData :: "jsval \<Rightarrow> jsval \<Rightarrow> string \<Rightarrow> int \<Rightarrow> int \<Rightarrow> jsval" where
  "sessionData username displayName sessionToken createdAt expiresAt =
     JObj [(''username'', username), (''displayName'', displayName), (''token'', JStr sessionToken),
           (''createdAt'', JNum createdAt), (''expiresAt'', JNum expiresAt)]"

definition encodeSession :: "jsval \<Rightarrow> string" where
  "encodeSession session = base64urlEncode (JSON_stringify session)"

text \<open>
  \<^verbatim>\<open>createSession(user)\<close>. \<open>now1\<close> is the \<^verbatim>\<open>Date.now()\<close> behind \<^verbatim>\<open>expiresAt\<close>, \<open>now2\<close> the
  later one stored as \<^verbatim>\<open>createdAt\<close>; \<open>production\<close> is \<^verbatim>\<open>NODE_ENV === 'production'\<close>;
  \<open>cookieStore\<close> is what \<^verbatim>\<open>await cookies()\<close> gives, the value of the request's session
  cookie or an exception. The handler logs \<^verbatim>\<open>user.username\<close> and throws the error again.
\<close>

definition createSessionBody ::
  "error + string \<Rightarrow> int \<Rightarrow> int \<Rightarrow> bool \<Rightarrow> error + string option \<Rightarrow> jsval
     \<Rightarrow> error + string \<times> cookieEffect" where
  "createSessionBody randomBytes now1 now2 production cookieStore user =
     bindE (generateSessionToken randomBytes) (\<lambda>sessionToken.
     let expiresAt = now1 + SESSION_DURATION_MS in
     bindE (getProp user ''username'') (\<lambda>username.
     bindE (getProp user ''displayName'') (\<lambda>displayName.
     let encodedSession = encodeSession (sessionData username displayName sessionToken now2 expiresAt) in
     bindE cookieStore (\<lambda>store.
       Inr (sessionToken,
            CookieSet \<lparr>cookieValue = encodedSession, httpOnly = True, secure = production,
                        sameSite = ''lax'', expires = expiresAt, path = ''/''\<rparr>)))))"

definition createSession ::
  "error + string \<Rightarrow> int \<Rightarrow> int \<Rightarrow> bool \<Rightarrow> error + string option \<Rightarrow> jsval
     \<Rightarrow> error + string \<times> cookieEffect" where
  "createSession randomBytes now1 now2 production cookieStore user =
     tryCatch (createSessionBody randomBytes now1 now2 production cookieStore user)
       (\<lambda>error. bindE (getProp user ''username'') (\<lambda>username. Inl error))"

text \<open>
  \<^verbatim>\<open>destroySession\<close>: the session is decoded for the log only, then the cookie is
  deleted; the handler throws the error again.
\<close>

definition destroySessionBody :: "usersFile \<Rightarrow> int \<Rightarrow> error + string option \<Rightarrow> error + cookieEffect" where
  "destroySessionBody file now cookieStore =
     bindE cookieStore (\<lambda>sessionCookie.
     bindE (case sessionCookie of
              None \<Rightarrow> Inr None
            | Some v \<Rightarrow> if v \<noteq> [] then decodeSession file now v else Inr None) (\<lambda>session.
       Inr CookieDeleted))"

definition destroySession :: "usersFile \<Rightarrow> int \<Rightarrow> error + string option \<Rightarrow> error + cookieEffect" where
  "destroySession file now cookieStore =
     tryCatch (destroySessionBody file now cookieStore) (\<lambda>error. Inl error)"

text \<open>
  Whether the user name of a decoded session still resolves in the user store: the one
  step that the module with file access adds to the decoding.
\<close>

definition userResolves :: "usersFile \<Rightarrow> jsval \<Rightarrow> bool" where
  "userResolves file session =
     (case bindE (getProp session ''username'') (\<lambda>username. findUser file (strOf username)) of
        Inl e \<Rightarrow> False
      | Inr user \<Rightarrow> user \<noteq> None)"

text \<open>
  The structure test of both decoders, stated on its own: a non-empty string
  \<^verbatim>\<open>username\<close>, a truthy \<^verbatim>\<open>token\<close>, a non-zero number \<^verbatim>\<open>expiresAt\<close>.
\<close>

definition wellFormedSession :: "jsval \<Rightarrow> bool" where
  "wellFormedSession session =
     (case (getProp session ''username'', getProp session ''token'', getProp session ''expiresAt'') of
        (Inr (JStr name), Inr token, Inr (JNum expiresAt)) \<Rightarrow> name \<noteq> [] \<and> truthy token \<and> expiresAt \<noteq> 0
      | _ \<Rightarrow> False)"

definition expiresAtOf :: "jsval \<Rightarrow> int" where
  "expiresAtOf session = (case getProp session ''expiresAt'' of Inr v \<Rightarrow> numOf v | Inl e \<Rightarrow> 0)"

text \<open>
  A session issued to alice: the token, the moment of the login, the cookie that
  \<^verbatim>\<open>createSession\<close> writes, and the structure it encodes as \<^verbatim>\<open>JSON.parse\<close> reads it back.
\<close>

definition aliceToken :: string where
  "aliceToken = ''q1w2e3r4t5y6u7i8o9p0a1s2d3f4g5h6j7k8l9z0x1c''"

definition aliceLoginTime :: int where
  "aliceLoginTime = 1700000000000"

definition aliceCookie :: string where
  "aliceCookie =
     encodeSession (sessionData (JStr ''alice'') JUndefined aliceToken aliceLoginTime
       (aliceLoginTime + SESSION_DURATION_MS))"

definition aliceSession :: jsval where
  "aliceSession =
     JObj [(''username'', JStr ''alice''), (''token'', JStr aliceToken),
           (''createdAt'', JNum 1700000000000), (''expiresAt'', JNum 1700086400000)]"

text \<open>
  The same cookie with one character changed, the 151st from \<^verbatim>\<open>E\<close> to \<^verbatim>\<open>k\<close>, and the
  structure that this value decodes to: \<^verbatim>\<open>expiresAt\<close> now starts with 9.
\<close>

definition tamperedCookie :: string where
  "tamperedCookie = aliceCookie[150 := CHR ''k'']"

definition tamperedSession :: jsval where
  "tamperedSession =
     JObj [(''username'', JStr ''alice''), (''token'', JStr aliceToken),
           (''createdAt'', JNum 1700000000000), (''expiresAt'', JNum 9700086400000)]"

section \<open>Input validation (src/lib/validation.ts)\<close>

text \<open>
  \<^verbatim>\<open>sanitizeInput\<close>, one function per \<^verbatim>\<open>replace\<close>, in the order of the source, and the
  final \<^verbatim>\<open>trim\<close>.
\<close>

definition isControl :: "char \<Rightarrow> bool" where
  "isControl c = (let n = (of_char c :: int) in
     n \<le> 8 \<or> n = 11 \<or> n = 12 \<or> (14 \<le> n \<and> n \<le> 31) \<or> n = 127)"

fun crlfToLf :: "string \<Rightarrow> string" where
  "crlfToLf (a # b # rest) =
     (if a = CHR 0x0D \<and> b = CHR 0x0A then CHR 0x0A # crlfToLf rest else a # crlfToLf (b # rest))"
| "crlfToLf s = s"

definition isBlank :: "char \<Rightarrow> bool" where
  "isBlank c = (c = CHR '' '' \<or> c = CHR 0x09)"

function collapseBlanks :: "string \<Rightarrow> string" where
  "collapseBlanks [] = []"
| "collapseBlanks (c # cs) =
     (if isBlank c then CHR '' '' # collapseBlanks (dropWhile isBlank cs)
      else c # collapseBlanks cs)"
  by pat_completeness auto
termination
  by (relation "measure length") (auto simp: less_Suc_eq_le length_dropWhile_le)

function limitNewlines :: "string \<Rightarrow> string" where
  "limitNewlines [] = []"
| "limitNewlines (c # cs) =
     (if c = CHR 0x0A then
        (let run = takeWhile (\<lambda>x. x = CHR 0x0A) (c # cs);
             rest = dropWhile (\<lambda>x. x = CHR 0x0A) cs
         in (if length run \<ge> 4 then [CHR 0x0A, CHR 0x0A, CHR 0x0A] else run) @ limitNewlines rest)
      else c # limitNewlines cs)"
  by pat_completeness auto
termination
  by (relation "measure length") (auto simp: less_Suc_eq_le length_dropWhile_le)

definition sanitizeInput :: "string \<Rightarrow> string" where
  "sanitizeInput input =
     trim (limitNewlines (collapseBlanks
       (map (\<lambda>c. if c = CHR 0x0D then CHR 0x0A else c)
         (crlfToLf (filter (\<lambda>c. \<not> isControl c) input)))))"

text \<open>
  \<^verbatim>\<open>isValidUtf8\<close>: \<open>encode\<close> is \<^verbatim>\<open>TextEncoder.encode\<close> and \<open>decodeFatal\<close> the fatal
  \<^verbatim>\<open>TextDecoder.decode\<close>, which throws on bytes that are not UTF-8.
\<close>

definition isValidUtf8 :: "(string \<Rightarrow> string) \<Rightarrow> (string \<Rightarrow> error + string) \<Rightarrow> string \<Rightarrow> bool" where
  "isValidUtf8 encode decodeFatal input =
     (case tryCatch (bindE (decodeFatal (encode input)) (\<lambda>text. Inr True)) (\<lambda>error. Inr False) of
        Inl e \<Rightarrow> False
      | Inr b \<Rightarrow> b)"

section \<open>Login and logout routes (src/app/api/auth)\<close>

text \<open>
  What a route handler needs from the platform for one request: the users file, bcrypt,
  the clock readings of \<^verbatim>\<open>verifyCredentials\<close> and of \<^verbatim>\<open>createSession\<close>, the random bytes,
  the environment flag, the cookie store and the text codecs.
\<close>

record env =
  envFile :: usersFile
  envCompare :: bcryptCompare
  envVerifyClock :: "int \<times> int \<times> int"
  envRandomBytes :: "error + string"
  envSessionClock :: "int \<times> int"
  envProduction :: bool
  envCookies :: "error + string option"
  envEncode :: "string \<Rightarrow> string"
  envDecodeFatal :: "string \<Rightarrow> error + string"

record response =
  status :: nat
  payload :: jsval

definition errorResponse :: "nat \<Rightarrow> string \<Rightarrow> response" where
  "errorResponse code message = \<lparr>status = code, payload = JObj [(''error'', JStr message)]\<rparr>"

text \<open>
  \<^verbatim>\<open>POST /api/auth/login\<close>. \<open>requestBody\<close> is what \<^verbatim>\<open>await req.json()\<close> gives, a value or
  an exception. The result is the response, the cookie written if any, and the map
  \<^verbatim>\<open>loginAttempts\<close> afterwards.
\<close>

definition loginBody ::
  "env \<Rightarrow> error + jsval \<Rightarrow> loginAttempts
     \<Rightarrow> (error + response \<times> cookieEffect option) \<times> loginAttempts" where
  "loginBody e requestBody st =
     (case bindE requestBody (\<lambda>body.
             bindE (getProp body ''username'') (\<lambda>username.
             bindE (getProp body ''password'') (\<lambda>password. Inr (username, password)))) of
        Inl err \<Rightarrow> (Inl err, st)
      | Inr (username, password) \<Rightarrow>
          if \<not> truthy username \<or> typeOf username \<noteq> ''string'' \<or> length (trim (strOf username)) = 0
          then (Inr (errorResponse 400 ''Username is required'', None), st)
          else if \<not> truthy password \<or> typeOf password \<noteq> ''string'' \<or> length (strOf password) = 0
          then (Inr (errorResponse 400 ''Password is required'', None), st)
          else if \<not> isValidUtf8 (envEncode e) (envDecodeFatal e) (strOf username)
                  \<or> \<not> isValidUtf8 (envEncode e) (envDecodeFatal e) (strOf password)
          then (Inr (errorResponse 400 ''Invalid character encoding'', None), st)
          else
            (let username' = sanitizeInput (strOf username) in
             if length username' < 3 \<or> length username' > 100
             then (Inr (errorResponse 401 ''Invalid credentials'', None), st)
             else if length (strOf password) < 8 \<or> length (strOf password) > 128
             then (Inr (errorResponse 401 ''Invalid credentials'', None), st)
             else
               (case verifyCredentials (envFile e) (envCompare e) (envVerifyClock e)
                       (JStr username') password st of
                  (Inl err, st') \<Rightarrow> (Inl err, st')
                | (Inr None, st') \<Rightarrow> (Inr (errorResponse 401 ''Invalid credentials'', None), st')
                | (Inr (Some user), st') \<Rightarrow>
                    (case createSession (envRandomBytes e) (fst (envSessionClock e))
                            (snd (envSessionClock e)) (envProduction e) (envCookies e) user of
                       Inl err \<Rightarrow> (Inr (errorResponse 500 ''Failed to create session'', None), st')
                     | Inr (sessionToken, cookie) \<Rightarrow>
                         (case bindE (getProp user ''username'') (\<lambda>name.
                                 bindE (getProp user ''displayName'') (\<lambda>displayName.
                                   Inr \<lparr>status = 200,
                                        payload = JObj [(''success'', JBool True),
                                                     (''message'', JStr ''Login successful''),
                                                     (''username'', name),
                                                     (''displayName'', displayName)]\<rparr>)) of
                            Inl err \<Rightarrow> (Inl err, st')
                          | Inr r \<Rightarrow> (Inr (r, Some cookie), st'))))))"

definition loginPOST ::
  "env \<Rightarrow> error + jsval \<Rightarrow> loginAttempts
     \<Rightarrow> (error + response \<times> cookieEffect option) \<times> loginAttempts" where
  "loginPOST e requestBody st =
     (case loginBody e requestBody st of
        (r, st') \<Rightarrow> (tryCatch r (\<lambda>error. Inr (errorResponse 400 ''Invalid request'', None)), st'))"

text \<open>\<^verbatim>\<open>POST /api/auth/logout\<close>\<close>

definition logoutPOST :: "usersFile \<Rightarrow> int \<Rightarrow> error + string option \<Rightarrow> error + response \<times> cookieEffect option" where
  "logoutPOST file now cookieStore =
     tryCatch
       (bindE (destroySession file now cookieStore) (\<lambda>effect.
          Inr (\<lparr>status = 200,
                payload = JObj [(''success'', JBool True), (''message'', JStr ''Logout successful'')]\<rparr>,
               Some effect)))
       (\<lambda>error. Inr (errorResponse 500 ''Failed to logout'', None))"

text \<open>
  A platform for running the login handler on concrete requests: the store with alice,
  the bcrypt of the section on credential verification, text codecs that accept every
  text.
\<close>

definition aliceEnv :: env where
  "aliceEnv =
     \<lparr>envFile = aliceFile, envCompare = idealCompare, envVerifyClock = (1000, 1000, 3500),
      envRandomBytes = Inr aliceToken, envSessionClock = (aliceLoginTime, aliceLoginTime),
      envProduction = False, envCookies = Inr None, envEncode = (\<lambda>s. s),
      envDecodeFatal = (\<lambda>s. Inr s)\<rparr>"

definition loginRequest :: "string \<Rightarrow> string \<Rightarrow> jsval" where
  "loginRequest username password = JObj [(''username'', JStr username), (''password'', JStr password)]"

text \<open>The answer to a successful login of alice on that platform, and the cookie it writes.\<close>

definition aliceWelcome :: response where
  "aliceWelcome =
     \<lparr>status = 200,
      payload = JObj [(''success'', JBool True), (''message'', JStr ''Login successful''),
                   (''username'', JStr ''alice''), (''displayName'', JUndefined)]\<rparr>"

definition aliceSetCookie :: cookieEffect where
  "aliceSetCookie =
     CookieSet \<lparr>cookieValue = aliceCookie, httpOnly = True, secure = False, sameSite = ''lax'',
                 expires = aliceLoginTime + SESSION_DURATION_MS, path = ''/''\<rparr>"

section \<open>Exceptions\<close>

lemma tryCatch_null: "tryCatch r (\<lambda>error. Inr None) = Inr (case r of Inl e \<Rightarrow> None | Inr v \<Rightarrow> v)"
  by (cases r) (simp_all add: tryCatch_def)

text \<open>The reads of \<^verbatim>\<open>username\<close> and \<^verbatim>\<open>password\<close> from a request body that has them.\<close>

lemma loginBody_fields:
  assumes "getProp body ''username'' = Inr username" and "getProp body ''password'' = Inr password"
  shows "bindE (Inr body) (\<lambda>body.
             bindE (getProp body ''username'') (\<lambda>username.
             bindE (getProp body ''password'') (\<lambda>password. Inr (username, password))))
           = Inr (username, password)"
  using assms by (simp add: bindE_def)

section \<open>Properties of the rate limiter\<close>

lemma recentOf_recentOf: "now \<le> t \<Longrightarrow> recentOf t (recentOf now ts) = recentOf t ts"
  by (induction ts) (auto simp: recentOf_def)

lemma recentOf_Nil_later: "now \<le> t \<Longrightarrow> recentOf now ts = [] \<Longrightarrow> recentOf t ts = []"
  by (induction ts) (auto simp: recentOf_def split: if_splits)

lemma recentOf_Nil [simp]: "recentOf t [] = []"
  by (simp add: recentOf_def)

lemma recentOf_append: "recentOf t (xs @ ys) = recentOf t xs @ recentOf t ys"
  by (simp add: recentOf_def)

lemma length_recentOf_le: "length (recentOf t xs) \<le> length xs"
  by (simp add: recentOf_def)

lemma distinct_update: "distinct (map fst m) \<Longrightarrow> distinct (map fst (AList.update k v m))"
  by (simp add: distinct_update)

lemma distinct_delete: "distinct (map fst m) \<Longrightarrow> distinct (map fst (AList.delete k m))"
  by (simp add: distinct_delete)

lemma cleanupLoop_active:
  assumes "distinct (map fst es)" and "\<forall>(k, ts) \<in> set es. map_of m k = Some ts" and "now \<le> t"
  shows "activeAt t (cleanupLoop now es c m) ip = activeAt t m ip"
  using assms
proof (induction es arbitrary: c m)
  case Nil
  then show ?case by simp
next
  case (Cons e es)
  obtain k ts where e: "e = (k, ts)" by (cases e)
  have mk: "map_of m k = Some ts" using Cons.prems(2) e by simp
  define m' where "m' = (if length (recentOf now ts) = 0 then AList.delete k m else AList.update k (recentOf now ts) m)"
  have act: "activeAt t m' ip = activeAt t m ip"
    using mk Cons.prems(3)
    by (auto simp: m'_def activeAt_def delete_conv' update_conv' recentOf_recentOf recentOf_Nil_later)
  have rest: "\<forall>(k', ts') \<in> set es. map_of m' k' = Some ts'"
  proof (clarify)
    fix k' ts' assume in_es: "(k', ts') \<in> set es"
    then have "k' \<noteq> k" using Cons.prems(1) e by (auto simp: image_iff)
    moreover have "map_of m k' = Some ts'" using Cons.prems(2) in_es by auto
    ultimately show "map_of m' k' = Some ts'"
      by (simp add: m'_def delete_conv' update_conv')
  qed
  have d: "distinct (map fst es)" using Cons.prems(1) by simp
  show ?case
    using Cons.IH[OF d rest Cons.prems(3)] act
    by (simp add: e Let_def m'_def)
qed

lemma cleanupLoop_distinct:
  "distinct (map fst m) \<Longrightarrow> distinct (map fst (cleanupLoop now es c m))"
proof (induction es arbitrary: c m)
  case Nil
  then show ?case by simp
next
  case (Cons e es)
  obtain k ts where e: "e = (k, ts)" by (cases e)
  show ?case using Cons.prems
    by (auto simp: e Let_def intro!: Cons.IH distinct_update distinct_delete)
qed

lemma cleanupOldEntries_active:
  assumes "distinct (map fst m)" and "now \<le> t"
  shows "activeAt t (cleanupOldEntries now m) ip = activeAt t m ip"
proof -
  have "\<forall>(k, ts) \<in> set m. map_of m k = Some ts"
    using assms(1) by auto
  then show ?thesis
    using cleanupLoop_active[OF assms(1) _ assms(2), of m] by (simp add: cleanupOldEntries_def)
qed

lemma cleanupOldEntries_distinct:
  "distinct (map fst m) \<Longrightarrow> distinct (map fst (cleanupOldEntries now m))"
  by (simp add: cleanupOldEntries_def cleanupLoop_distinct)


lemma isRateLimited_limited:
  "length (activeAt now m ip) \<ge> MAX_REQUESTS \<Longrightarrow> isRateLimited now rnd now2 ip m = (True, m)"
  by (simp add: isRateLimited_def activeAt_def Let_def)

lemma isRateLimited_admitted:
  assumes "length (activeAt now m ip) < MAX_REQUESTS" and "distinct (map fst m)" and "now \<le> now2"
  shows "fst (isRateLimited now rnd now2 ip m) = False"
    and "distinct (map fst (snd (isRateLimited now rnd now2 ip m)))"
    and "now2 \<le> t \<Longrightarrow>
         activeAt t (snd (isRateLimited now rnd now2 ip m)) ip = activeAt t m ip @ recentOf t [now]"
proof -
  define m1 where "m1 = AList.update ip (activeAt now m ip @ [now]) m"
  have d1: "distinct (map fst m1)"
    using assms(2) by (simp add: m1_def distinct_update)
  have res: "isRateLimited now rnd now2 ip m =
               (False, if rnd < 0.1 then cleanupOldEntries now2 m1 else m1)"
    using assms(1) by (simp add: isRateLimited_def activeAt_def Let_def m1_def)
  show "fst (isRateLimited now rnd now2 ip m) = False"
    by (simp add: res)
  show "distinct (map fst (snd (isRateLimited now rnd now2 ip m)))"
    using d1 by (simp add: res cleanupOldEntries_distinct)
  assume t: "now2 \<le> t"
  have "activeAt t m1 ip = activeAt t m ip @ recentOf t [now]"
    using t assms(3)
    by (simp add: m1_def activeAt_def update_conv' recentOf_append recentOf_recentOf)
  then show "activeAt t (snd (isRateLimited now rnd now2 ip m)) ip = activeAt t m ip @ recentOf t [now]"
    using d1 t by (simp add: res cleanupOldEntries_active)
qed

lemma clockOk_lastClock: "clockOk c es \<Longrightarrow> c \<le> lastClock c es"
  by (induction c es rule: clockOk.induct) auto

lemma run_admits:
  assumes "distinct (map fst m)" and "clockOk c es"
    and "\<forall>t\<ge>c. activeAt t m ip = recentOf t h"
    and "length h + length es \<le> MAX_REQUESTS"
  shows "fst (isRateLimitedRun ip es m) = replicate (length es) False
       \<and> distinct (map fst (snd (isRateLimitedRun ip es m)))
       \<and> (\<forall>t\<ge>lastClock c es. activeAt t (snd (isRateLimitedRun ip es m)) ip = recentOf t (h @ map fst es))"
  using assms
proof (induction es arbitrary: c m h)
  case Nil
  then show ?case by simp
next
  case (Cons e es)
  obtain now rnd now2 where e: "e = (now, rnd, now2)" by (cases e)
  have clk: "c \<le> now" "now \<le> now2" "clockOk now2 es"
    using Cons.prems(2) by (simp_all add: e)
  have "length (activeAt now m ip) \<le> length h"
    using Cons.prems(3) clk(1) by (simp add: length_recentOf_le)
  then have lt: "length (activeAt now m ip) < MAX_REQUESTS"
    using Cons.prems(4) by simp
  define m1 where "m1 = snd (isRateLimited now rnd now2 ip m)"
  have b: "isRateLimited now rnd now2 ip m = (False, m1)"
    using isRateLimited_admitted(1)[OF lt Cons.prems(1) clk(2), of rnd]
    by (simp add: m1_def prod_eq_iff)
  have d1: "distinct (map fst m1)"
    using isRateLimited_admitted(2)[OF lt Cons.prems(1) clk(2)] by (simp add: m1_def)
  have a1: "\<forall>t\<ge>now2. activeAt t m1 ip = recentOf t (h @ [now])"
    using isRateLimited_admitted(3)[OF lt Cons.prems(1) clk(2)] Cons.prems(3) clk
    by (simp add: m1_def recentOf_append)
  have len: "length (h @ [now]) + length es \<le> MAX_REQUESTS"
    using Cons.prems(4) by simp
  from Cons.IH[OF d1 clk(3) a1 len]
  show ?case
    by (auto simp: e b split: prod.splits)
qed


lemma clockOk_lower: "clockOk c es \<Longrightarrow> e \<in> set es \<Longrightarrow> c \<le> fst e"
  by (induction c es rule: clockOk.induct) auto

lemma recentOf_all: "\<forall>x\<in>set xs. t - x < WINDOW_MS \<Longrightarrow> recentOf t xs = xs"
  by (simp add: recentOf_def)

text \<open>
  Claim C4. For a key with no prior state, ten consecutive \<open>isRateLimited\<close> calls whose
  times lie in the window of 60 seconds that starts at the first call all return false,
  and the key's live timestamps afterwards are exactly the times of these calls; an
  eleventh call inside that window returns true and leaves the map as it is; a call once
  60 seconds have passed since the first request returns false again. The random draw and
  the cleanup pass of every call are arbitrary.
\<close>

theorem isRateLimited_window:
  assumes "distinct (map fst m)" and "map_of m ip = None"
    and "es = (t1, r1, c1) # es'" and "length es = MAX_REQUESTS"
    and "clockOk t1 es"
    and "\<forall>e\<in>set es. fst e < t1 + WINDOW_MS"
  shows "fst (isRateLimitedRun ip es m) = replicate MAX_REQUESTS False
       \<and> (\<forall>t\<ge>lastClock t1 es.
            activeAt t (snd (isRateLimitedRun ip es m)) ip = recentOf t (map fst es))
       \<and> (\<forall>t rnd t2. lastClock t1 es \<le> t \<and> t < t1 + WINDOW_MS \<longrightarrow>
            isRateLimited t rnd t2 ip (snd (isRateLimitedRun ip es m))
              = (True, snd (isRateLimitedRun ip es m)))
       \<and> (\<forall>t rnd t2. lastClock t1 es \<le> t \<and> t1 + WINDOW_MS \<le> t \<and> t \<le> t2 \<longrightarrow>
            fst (isRateLimited t rnd t2 ip (snd (isRateLimitedRun ip es m))) = False)"
proof -
  define m' where "m' = snd (isRateLimitedRun ip es m)"
  have init: "\<forall>t\<ge>t1. activeAt t m ip = recentOf t []"
    using assms(2) by (simp add: activeAt_def)
  have len: "length ([]::int list) + length es \<le> MAX_REQUESTS"
    using assms(4) by simp
  from run_admits[OF assms(1) assms(5) init len]
  have r: "fst (isRateLimitedRun ip es m) = replicate MAX_REQUESTS False"
    and d: "distinct (map fst m')"
    and a: "\<forall>t\<ge>lastClock t1 es. activeAt t m' ip = recentOf t (map fst es)"
    by (simp_all add: m'_def assms(4))
  have limited: "isRateLimited t rnd t2 ip m' = (True, m')"
    if "lastClock t1 es \<le> t" and "t < t1 + WINDOW_MS" for t rnd t2
  proof -
    have "\<forall>x\<in>set (map fst es). t - x < WINDOW_MS"
      using clockOk_lower[OF assms(5)] that(2) by fastforce
    then have "activeAt t m' ip = map fst es"
      using a that(1) by (simp add: recentOf_all)
    then show ?thesis
      using assms(4) by (simp add: isRateLimited_limited)
  qed
  have admitted: "fst (isRateLimited t rnd t2 ip m') = False"
    if "lastClock t1 es \<le> t" and "t1 + WINDOW_MS \<le> t" and "t \<le> t2" for t rnd t2
  proof -
    have "activeAt t m' ip = recentOf t (map fst es')"
      using a that(1,2) by (simp add: assms(3) recentOf_def)
    then have "length (activeAt t m' ip) \<le> length es'"
      using length_recentOf_le[of t "map fst es'"] by simp
    then have "length (activeAt t m' ip) < MAX_REQUESTS"
      using assms(3,4) by simp
    then show ?thesis
      using isRateLimited_admitted(1)[OF _ d that(3)] by simp
  qed
  show ?thesis
    using r a limited admitted unfolding m'_def by blast
qed

theorem isRateLimited_window_witness:
  "map_of ([]::requests) ''1.2.3.4'' = None \<and> length tenCalls = MAX_REQUESTS
   \<and> clockOk 1000 tenCalls \<and> list_all (\<lambda>e. fst e < 1000 + WINDOW_MS) tenCalls
   \<and> fst (isRateLimitedRun ''1.2.3.4'' tenCalls []) = replicate MAX_REQUESTS False
   \<and> isRateLimited 60999 0.5 60999 ''1.2.3.4'' (snd (isRateLimitedRun ''1.2.3.4'' tenCalls []))
       = (True, snd (isRateLimitedRun ''1.2.3.4'' tenCalls []))
   \<and> fst (isRateLimited 61000 0.5 61000 ''1.2.3.4'' (snd (isRateLimitedRun ''1.2.3.4'' tenCalls []))) = False"
proof -
  have h: "map_of ([]::requests) ''1.2.3.4'' = None" "length tenCalls = MAX_REQUESTS"
    "clockOk 1000 tenCalls" "\<forall>e\<in>set tenCalls. fst e < 1000 + WINDOW_MS"
    "tenCalls = (1000, 0.5, 1000) # tl tenCalls"
    "lastClock 1000 tenCalls = 60999"
    by (simp_all add: tenCalls_def MAX_REQUESTS_def WINDOW_MS_def)
  have d: "distinct (map fst ([]::requests))" by simp
  from isRateLimited_window[OF d h(1) h(5) h(2) h(3) h(4)] h
  show ?thesis by (simp add: WINDOW_MS_def list_all_iff)
qed

section \<open>Properties of the user store\<close>

lemma getProp_Inl: "getProp v name = Inl e \<longleftrightarrow> (v = JNull \<or> v = JUndefined) \<and> e = TypeError"
  by (cases v) auto

lemma validUsers_Cons:
  "validUsers (u # entries) =
     (if u = JNull \<or> u = JUndefined then Inl TypeError
      else bindE (validUsers entries) (\<lambda>kept. Inr (if validEntry u then u # kept else kept)))"
  by (cases u) (auto simp: bindE_def validEntry_def fieldTruthy_def split: sum.splits)

lemma validUsers_Inr: "validUsers entries = Inr users \<Longrightarrow> users = filter validEntry entries"
proof (induction entries arbitrary: users)
  case Nil
  then show ?case by simp
next
  case (Cons u entries)
  then show ?case
    unfolding validUsers_Cons
    by (cases "validUsers entries") (auto simp: bindE_def split: if_splits)
qed

lemma validUsers_objects:
  "JNull \<notin> set entries \<Longrightarrow> JUndefined \<notin> set entries \<Longrightarrow> validUsers entries = Inr (filter validEntry entries)"
proof (induction entries)
  case Nil
  then show ?case by simp
next
  case (Cons u entries)
  then show ?case
    unfolding validUsers_Cons by (auto simp: bindE_def)
qed

lemma validUsers_null:
  "JNull \<in> set entries \<or> JUndefined \<in> set entries \<Longrightarrow> validUsers entries = Inl TypeError"
proof (induction entries)
  case Nil
  then show ?case by simp
next
  case (Cons u entries)
  then show ?case
    unfolding validUsers_Cons by (auto simp: bindE_def)
qed

lemma loadUsers_Inr: "\<exists>users. loadUsers file = Inr users"
  by (cases "loadUsersBody file") (simp_all add: loadUsers_def tryCatch_def)

lemma loadUsers_eq:
  "loadUsers file = Inr users \<longleftrightarrow>
     users = (case loadUsersBody file of Inl e \<Rightarrow> [] | Inr us \<Rightarrow> us)"
  by (cases "loadUsersBody file") (auto simp: loadUsers_def tryCatch_def)

lemma loadUsers_array:
  assumes "trim content \<noteq> []" and "JSON_parse content = Some data"
    and "getProp data ''users'' = Inr (JArr entries)"
  shows "loadUsersBody (Content content) = validUsers entries"
proof -
  have "truthy data" using assms(3) by (cases data) auto
  then show ?thesis using assms by (simp add: loadUsersBody_def bindE_def)
qed

lemma loadUsers_no_array:
  assumes "JSON_parse content = Some data" and "\<forall>entries. getProp data ''users'' \<noteq> Inr (JArr entries)"
  shows "loadUsers (Content content) = Inr []"
proof (cases "getProp data ''users''")
  case (Inl e)
  then show ?thesis using assms(1)
    by (simp add: loadUsers_def loadUsersBody_def tryCatch_def bindE_def)
next
  case (Inr v)
  then have "\<forall>entries. v \<noteq> JArr entries" using assms(2) by simp
  then show ?thesis using assms(1) Inr
    by (cases v) (simp_all add: loadUsers_def loadUsersBody_def tryCatch_def bindE_def)
qed

text \<open>
  Claim C8 does not hold of the code. A \<^verbatim>\<open>null\<close> among the entries of the \<^verbatim>\<open>users\<close> array
  is an entry without \<^verbatim>\<open>username\<close> and \<^verbatim>\<open>passwordHash\<close>, but it is not filtered out: the
  filter reads \<^verbatim>\<open>user.username\<close> on it and throws, the \<^verbatim>\<open>catch\<close> of \<open>loadUsers\<close> returns
  the empty sequence, and the complete entries of the file are lost with it.
\<close>

theorem loadUsers_null_entry:
  assumes "trim content \<noteq> []" and "JSON_parse content = Some data"
    and "getProp data ''users'' = Inr (JArr entries)" and "JNull \<in> set entries"
  shows "loadUsers (Content content) = Inr []"
proof -
  have "validUsers entries = Inl TypeError"
    using assms(4) by (simp add: validUsers_null)
  then show ?thesis
    using loadUsers_array[OF assms(1,2,3)] by (simp add: loadUsers_def tryCatch_def)
qed

lemma nullEntryFile_parses:
  "trim nullEntryFile \<noteq> []"
  "JSON_parse nullEntryFile = Some (JObj [(''users'', JArr [JNull, aliceRecord])])"
  by code_simp+

theorem loadUsers_null_entry_witness:
  "JSON_parse nullEntryFile = Some (JObj [(''users'', JArr [JNull, aliceRecord])])
   \<and> validEntry aliceRecord
   \<and> filter validEntry [JNull, aliceRecord] = [aliceRecord]
   \<and> loadUsers (Content nullEntryFile) = Inr []"
proof -
  have "validEntry aliceRecord" "\<not> validEntry JNull"
    by (simp_all add: aliceRecord_def validEntry_def fieldTruthy_def idealHash_def)
  then show ?thesis
    using loadUsers_null_entry[OF nullEntryFile_parses, of "[JNull, aliceRecord]"] nullEntryFile_parses(2)
    by simp
qed

text \<open>
  What \<open>loadUsers\<close> does keep. It never throws: for every state of the users file the
  caller gets a sequence. The sequence is empty when the file is absent or unreadable,
  when its content is empty (blank), when it does not parse, and when the parsed value
  has no \<^verbatim>\<open>users\<close> array. On a \<^verbatim>\<open>users\<close> array the result is the array without the
  entries that lack a truthy \<^verbatim>\<open>username\<close> or \<^verbatim>\<open>passwordHash\<close> when no entry is \<^verbatim>\<open>null\<close>,
  and the empty sequence when one is.
\<close>

theorem loadUsers_safe:
  "(\<exists>users. loadUsers file = Inr users)
   \<and> loadUsers Absent = Inr []
   \<and> loadUsers Unreadable = Inr []
   \<and> (trim content = [] \<longrightarrow> loadUsers (Content content) = Inr [])
   \<and> (JSON_parse content = None \<longrightarrow> loadUsers (Content content) = Inr [])
   \<and> (JSON_parse content = Some data \<and> (\<forall>entries. getProp data ''users'' \<noteq> Inr (JArr entries))
        \<longrightarrow> loadUsers (Content content) = Inr [])
   \<and> (trim content \<noteq> [] \<and> JSON_parse content = Some data
        \<and> getProp data ''users'' = Inr (JArr entries)
        \<longrightarrow> loadUsers (Content content)
              = Inr (if JNull \<in> set entries \<or> JUndefined \<in> set entries then []
                     else filter validEntry entries))"
proof -
  have filt: "loadUsers (Content content)
                = Inr (if JNull \<in> set entries \<or> JUndefined \<in> set entries then []
                       else filter validEntry entries)"
    if "trim content \<noteq> []" "JSON_parse content = Some data"
       "getProp data ''users'' = Inr (JArr entries)"
  proof (cases "JNull \<in> set entries \<or> JUndefined \<in> set entries")
    case True
    then have "validUsers entries = Inl TypeError" by (rule validUsers_null)
    then show ?thesis
      using loadUsers_array[OF that] True by (simp add: loadUsers_def tryCatch_def)
  next
    case False
    then have "validUsers entries = Inr (filter validEntry entries)"
      by (simp add: validUsers_objects)
    then show ?thesis
      using loadUsers_array[OF that] False by (simp add: loadUsers_def tryCatch_def)
  qed
  show ?thesis
    using loadUsers_Inr[of "file"] loadUsers_no_array[of content data] filt
    by (auto simp: loadUsers_def loadUsersBody_def tryCatch_def)
qed

lemma mixedFile_parses:
  "trim mixedFile \<noteq> []"
  "JSON_parse mixedFile = Some (JObj [(''users'', JArr mixedEntries)])"
  by code_simp+

theorem loadUsers_safe_witness:
  "JSON_parse mixedFile = Some (JObj [(''users'', JArr mixedEntries)])
   \<and> getProp (JObj [(''users'', JArr mixedEntries)]) ''users'' = Inr (JArr mixedEntries)
   \<and> loadUsers (Content mixedFile) = Inr [aliceRecord]
   \<and> loadUsers (Content '' '') = Inr []
   \<and> loadUsers (Content ''{oops'') = Inr []"
proof -
  have p: "JSON_parse ''{oops'' = None" "trim '' '' = []"
    by code_simp+
  have g: "getProp (JObj [(''users'', JArr mixedEntries)]) ''users'' = Inr (JArr mixedEntries)"
    by simp
  have e: "JNull \<notin> set mixedEntries" "JUndefined \<notin> set mixedEntries"
    "filter validEntry mixedEntries = [aliceRecord]"
    by (simp_all add: mixedEntries_def aliceRecord_def validEntry_def fieldTruthy_def idealHash_def)
  show ?thesis
    using loadUsers_safe[of "Content mixedFile" mixedFile "JObj [(''users'', JArr mixedEntries)]" mixedEntries]
      loadUsers_safe[of Absent "'' ''" JNull "[]"] loadUsers_safe[of Absent "''{oops''" JNull "[]"]
      mixedFile_parses p g e
    by simp
qed

section \<open>Properties of the lockout tracker and the verifier\<close>

lemma isLockedOut_none: "st (toLowerCase username) = None \<Longrightarrow> isLockedOut now1 now2 username st = (False, st)"
  by (simp add: isLockedOut_def)

lemma isLockedOut_unlocked:
  "st (toLowerCase username) = Some a \<Longrightarrow> lockedUntil a = None \<Longrightarrow> isLockedOut now1 now2 username st = (False, st)"
  by (simp add: isLockedOut_def lockedUntilAnd_def)

lemma isLockedOut_locked:
  "st (toLowerCase username) = Some a \<Longrightarrow> lockedUntil a = Some u \<Longrightarrow> u \<noteq> 0 \<Longrightarrow> now1 < u
     \<Longrightarrow> isLockedOut now1 now2 username st = (True, st)"
  by (simp add: isLockedOut_def lockedUntilAnd_def)

lemma isLockedOut_expired:
  "st (toLowerCase username) = Some a \<Longrightarrow> lockedUntil a = Some u \<Longrightarrow> u \<le> now1
     \<Longrightarrow> fst (isLockedOut now1 now2 username st) = False"
  by (simp add: isLockedOut_def lockedUntilAnd_def)

text \<open>A call that gets past the lockout test with a wrong password records one failure.\<close>

lemma verify_wrong_password:
  assumes "trim username \<noteq> []" and "password \<noteq> []"
    and "isLockedOut now1 now2 username st = (False, st)"
    and "findUser file username = Inr (Some user)"
    and "getProp user ''passwordHash'' = Inr h" and "compare password h = Inr False"
  shows "verifyCredentials file compare (now1, now2, now3) (JStr username) (JStr password) st
           = (Inr None, snd (recordFailedAttempt now3 username st))"
proof -
  have "username \<noteq> []" using assms(1) by (auto simp: trim_def)
  then show ?thesis
    using assms by (simp add: verifyCredentials_def verifyCredentialsBody_def bindE_def tryCatch_def)
qed

lemma verify_locked:
  assumes "isLockedOut now1 now2 username st = (True, st)"
  shows "verifyCredentials file compare (now1, now2, now3) (JStr username) password st = (Inr None, st)"
  using assms by (simp add: verifyCredentials_def verifyCredentialsBody_def tryCatch_def)

lemma verify_correct_password:
  assumes "trim username \<noteq> []" and "password \<noteq> []"
    and "fst (isLockedOut now1 now2 username st) = False"
    and "findUser file username = Inr (Some user)"
    and "getProp user ''passwordHash'' = Inr h" and "compare password h = Inr True"
  shows "fst (verifyCredentials file compare (now1, now2, now3) (JStr username) (JStr password) st)
           = Inr (Some user)"
proof -
  have "username \<noteq> []" using assms(1) by (auto simp: trim_def)
  then show ?thesis
    using assms
    by (cases "isLockedOut now1 now2 username st")
       (simp add: verifyCredentials_def verifyCredentialsBody_def bindE_def tryCatch_def)
qed

lemma record_first:
  "st (toLowerCase username) = None \<Longrightarrow>
   snd (recordFailedAttempt now username st) (toLowerCase username)
     = Some \<lparr>count = 1, lastAttempt = now, lockedUntil = None\<rparr>"
  by (simp add: recordFailedAttempt_def)

lemma record_next:
  "st (toLowerCase username) = Some \<lparr>count = c, lastAttempt = l, lockedUntil = None\<rparr> \<Longrightarrow>
   now - l \<le> attemptWindow \<Longrightarrow>
   snd (recordFailedAttempt now username st) (toLowerCase username)
     = Some \<lparr>count = c + 1, lastAttempt = now,
             lockedUntil = (if c + 1 \<ge> maxAttempts then Some (now + lockoutDuration) else None)\<rparr>"
  by (simp add: recordFailedAttempt_def Let_def)

text \<open>Failures up to the threshold: from a count \<open>c\<close> below it, the run that brings the count to 5.\<close>

lemma verifyRun_to_lock:
  assumes "trim username \<noteq> []"
    and "findUser file username = Inr (Some user)"
    and "getProp user ''passwordHash'' = Inr h"
    and "\<forall>call\<in>set calls. snd call \<noteq> [] \<and> compare (snd call) h = Inr False"
    and "st (toLowerCase username) = Some \<lparr>count = c, lastAttempt = l, lockedUntil = None\<rparr>"
    and "c + int (length calls) = maxAttempts" and "calls \<noteq> []"
    and "inWindow k l calls"
  shows "fst (verifyRun file compare username calls st) = replicate (length calls) (Inr None)
       \<and> snd (verifyRun file compare username calls st) (toLowerCase username)
           = Some \<lparr>count = maxAttempts, lastAttempt = lastRecord l calls,
                   lockedUntil = Some (lastRecord l calls + lockoutDuration)\<rparr>"
  using assms(4-8)
proof (induction calls arbitrary: st c l k)
  case Nil
  then show ?case by simp
next
  case (Cons call calls)
  obtain now1 now2 now3 password where call: "call = ((now1, now2, now3), password)"
    by (cases call) auto
  have pw: "password \<noteq> []" "compare password h = Inr False"
    using Cons.prems(1) by (simp_all add: call)
  have win: "now3 - l \<le> attemptWindow" "inWindow now3 now3 calls"
    using Cons.prems(5) by (simp_all add: call)
  have unl: "isLockedOut now1 now2 username st = (False, st)"
    using Cons.prems(2) by (simp add: isLockedOut_def lockedUntilAnd_def)
  define st1 where "st1 = snd (recordFailedAttempt now3 username st)"
  have step: "verifyCredentials file compare (now1, now2, now3) (JStr username) (JStr password) st
                = (Inr None, st1)"
    unfolding st1_def
    by (rule verify_wrong_password[where compare=compare, OF assms(1) pw(1) unl assms(2) assms(3) pw(2)])
  have st1: "st1 (toLowerCase username)
               = Some \<lparr>count = c + 1, lastAttempt = now3,
                       lockedUntil = (if c + 1 \<ge> maxAttempts then Some (now3 + lockoutDuration) else None)\<rparr>"
    unfolding st1_def using Cons.prems(2) win(1) by (rule record_next)
  show ?case
  proof (cases calls)
    case Nil
    then have "c + 1 = maxAttempts" using Cons.prems(3) by simp
    then show ?thesis using st1 by (simp add: call step Nil)
  next
    case (Cons call' calls')
    then have lt: "\<not> c + 1 \<ge> maxAttempts" using Cons.prems(3) by simp
    have st1': "st1 (toLowerCase username) = Some \<lparr>count = c + 1, lastAttempt = now3, lockedUntil = None\<rparr>"
      using st1 lt by simp
    have len: "(c + 1) + int (length calls) = maxAttempts" using Cons.prems(3) by simp
    have ne: "calls \<noteq> []" using Cons by simp
    have rest: "\<forall>call\<in>set calls. snd call \<noteq> [] \<and> compare (snd call) h = Inr False"
      using Cons.prems(1) by simp
    from Cons.IH[of st1 "c + 1" now3 now3, OF rest st1' len ne win(2)]
    show ?thesis by (auto simp: call step split: prod.splits)
  qed
qed


lemma inWindow_lastRecord: "inWindow k l calls \<Longrightarrow> l \<le> k \<Longrightarrow> l \<le> lastRecord l calls"
proof (induction calls arbitrary: k l)
  case Nil
  then show ?case by simp
next
  case (Cons call calls)
  obtain now1 now2 now3 password where call: "call = ((now1, now2, now3), password)"
    by (cases call) auto
  have "now3 \<le> lastRecord now3 calls" using Cons.IH[of now3 now3] Cons.prems by (simp add: call)
  then show ?case using Cons.prems by (simp add: call)
qed

text \<open>
  Claim C1. Take a user name that resolves to a record of the store, and five
  \<open>verifyCredentials\<close> calls for it with wrong passwords, starting with no failure on
  record, each recorded at most five minutes after the one before. All five return null.
  From then until 15 minutes after the fifth failure every further call for that name
  returns null, whatever the password, and leaves the state alone, and \<open>isLockedOut\<close> is
  true; from 15 minutes after the fifth failure on, a call with the correct password
  returns the record.
\<close>

theorem lockout_after_five_failures:
  assumes "trim username \<noteq> []"
    and "findUser file username = Inr (Some user)"
    and "getProp user ''passwordHash'' = Inr h"
    and "password \<noteq> []" and "compare password h = Inr True"
    and "\<forall>call\<in>set calls. snd call \<noteq> [] \<and> compare (snd call) h = Inr False"
    and "length calls = 5" and "failuresInWindow calls"
    and "st (toLowerCase username) = None"
  shows "fst (verifyRun file compare username calls st) = replicate 5 (Inr None)
       \<and> (\<forall>now1 now2 now3 anyPassword.
             now1 < lastRecord 0 calls + lockoutDuration \<longrightarrow>
               verifyCredentials file compare (now1, now2, now3) (JStr username) anyPassword
                   (snd (verifyRun file compare username calls st))
                 = (Inr None, snd (verifyRun file compare username calls st))
               \<and> fst (isLockedOut now1 now2 username (snd (verifyRun file compare username calls st))))
       \<and> (\<forall>now1 now2 now3.
             lastRecord 0 calls + lockoutDuration \<le> now1 \<longrightarrow>
               fst (verifyCredentials file compare (now1, now2, now3) (JStr username) (JStr password)
                     (snd (verifyRun file compare username calls st)))
                 = Inr (Some user))"
proof -
  obtain call rest where calls: "calls = call # rest" "length rest = 4"
    using assms(7) by (cases calls) auto
  obtain t1 t2 t3 pw where call: "call = ((t1, t2, t3), pw)"
    by (cases call) auto
  have clk: "0 \<le> t1" "t1 \<le> t2" "t2 \<le> t3" "inWindow t3 t3 rest"
    using assms(8) by (simp_all add: failuresInWindow_def calls call)
  have pw: "pw \<noteq> []" "compare pw h = Inr False"
    using assms(6) by (simp_all add: calls call)
  define st1 where "st1 = snd (recordFailedAttempt t3 username st)"
  have unl: "isLockedOut t1 t2 username st = (False, st)"
    using assms(9) by (rule isLockedOut_none)
  have step: "verifyCredentials file compare (t1, t2, t3) (JStr username) (JStr pw) st = (Inr None, st1)"
    unfolding st1_def
    by (rule verify_wrong_password[where compare=compare,
          OF assms(1) pw(1) unl assms(2) assms(3) pw(2)])
  have st1: "st1 (toLowerCase username) = Some \<lparr>count = 1, lastAttempt = t3, lockedUntil = None\<rparr>"
    unfolding st1_def using assms(9) by (rule record_first)
  have rest_wrong: "\<forall>call\<in>set rest. snd call \<noteq> [] \<and> compare (snd call) h = Inr False"
    using assms(6) by (simp add: calls)
  have len: "1 + int (length rest) = maxAttempts" "rest \<noteq> []"
    using calls(2) by (auto simp: maxAttempts_def)
  define st5 where "st5 = snd (verifyRun file compare username calls st)"
  define T where "T = lastRecord 0 calls"
  have T: "T = lastRecord t3 rest" "0 \<le> T"
    using inWindow_lastRecord[OF clk(4)] clk(1,2,3) by (simp_all add: T_def calls call)
  from verifyRun_to_lock[where compare=compare and st=st1 and c=1 and l=t3 and k=t3,
         OF assms(1) assms(2) assms(3) rest_wrong st1 len clk(4)]
  have run: "fst (verifyRun file compare username rest st1) = replicate 4 (Inr None)"
    and fin: "snd (verifyRun file compare username rest st1) (toLowerCase username)
                = Some \<lparr>count = maxAttempts, lastAttempt = T, lockedUntil = Some (T + lockoutDuration)\<rparr>"
    by (simp_all add: calls(2) T(1))
  have res: "fst (verifyRun file compare username calls st) = replicate 5 (Inr None)"
    using run by (auto simp: calls call step numeral_eq_Suc split: prod.splits)
  have st5: "st5 (toLowerCase username)
               = Some \<lparr>count = maxAttempts, lastAttempt = T, lockedUntil = Some (T + lockoutDuration)\<rparr>"
    using fin by (auto simp: st5_def calls call step split: prod.splits)
  have nz: "T + lockoutDuration \<noteq> 0"
    using T(2) by (simp add: lockoutDuration_def)
  have locked: "verifyCredentials file compare (now1, now2, now3) (JStr username) anyPassword st5
                  = (Inr None, st5)
                \<and> fst (isLockedOut now1 now2 username st5)"
    if "now1 < T + lockoutDuration" for now1 now2 now3 anyPassword
  proof -
    have "isLockedOut now1 now2 username st5 = (True, st5)"
      using st5 nz that by (simp add: isLockedOut_def lockedUntilAnd_def)
    then show ?thesis
      by (simp add: verifyCredentials_def verifyCredentialsBody_def tryCatch_def)
  qed
  have expired: "fst (verifyCredentials file compare (now1, now2, now3) (JStr username) (JStr password) st5)
                   = Inr (Some user)"
    if "T + lockoutDuration \<le> now1" for now1 now2 now3
  proof -
    have "fst (isLockedOut now1 now2 username st5) = False"
      using st5 that by (simp add: isLockedOut_def lockedUntilAnd_def)
    then show ?thesis
      by (rule verify_correct_password[where compare=compare,
            OF assms(1) assms(4) _ assms(2) assms(3) assms(5)])
  qed
  show ?thesis
    using res locked expired unfolding st5_def T_def by blast
qed

lemma findUser_alice_plain: "findUser aliceFile ''alice'' = Inr (Some aliceRecord)"
  by code_simp

theorem lockout_after_five_failures_witness:
  "findUser aliceFile ''alice'' = Inr (Some aliceRecord)
   \<and> idealCompare ''pw12345678'' (JStr (idealHash ''pw12345678'')) = Inr True
   \<and> list_all (\<lambda>call. idealCompare (snd call) (JStr (idealHash ''pw12345678'')) = Inr False) fiveWrong
   \<and> failuresInWindow fiveWrong
   \<and> lastRecord 0 fiveWrong = 402500
   \<and> fst (verifyRun aliceFile idealCompare ''alice'' fiveWrong Map.empty) = replicate 5 (Inr None)
   \<and> fst (verifyCredentials aliceFile idealCompare (1302499, 1302499, 1305000) (JStr ''alice'') (JStr ''pw12345678'')
            (snd (verifyRun aliceFile idealCompare ''alice'' fiveWrong Map.empty))) = Inr None
   \<and> fst (isLockedOut 1302499 1302499 ''alice'' (snd (verifyRun aliceFile idealCompare ''alice'' fiveWrong Map.empty)))
   \<and> fst (verifyCredentials aliceFile idealCompare (1302500, 1302500, 1305000) (JStr ''alice'') (JStr ''pw12345678'')
            (snd (verifyRun aliceFile idealCompare ''alice'' fiveWrong Map.empty))) = Inr (Some aliceRecord)"
proof -
  have wrong: "idealCompare ''wrong-pw-1'' (JStr (idealHash ''pw12345678'')) = Inr False"
    "idealCompare ''wrong-pw-2'' (JStr (idealHash ''pw12345678'')) = Inr False"
    "idealCompare '' pw12345678'' (JStr (idealHash ''pw12345678'')) = Inr False"
    "idealCompare ''PW12345678'' (JStr (idealHash ''pw12345678'')) = Inr False"
    "idealCompare ''pw1234567'' (JStr (idealHash ''pw12345678'')) = Inr False"
    by code_simp+
  have right: "idealCompare ''pw12345678'' (JStr (idealHash ''pw12345678'')) = Inr True"
    by code_simp
  have h: "trim ''alice'' \<noteq> []"
    "getProp aliceRecord ''passwordHash'' = Inr (JStr (idealHash ''pw12345678''))"
    "''pw12345678'' \<noteq> []"
    "idealCompare ''pw12345678'' (JStr (idealHash ''pw12345678'')) = Inr True"
    "\<forall>call\<in>set fiveWrong. snd call \<noteq> [] \<and> idealCompare (snd call) (JStr (idealHash ''pw12345678'')) = Inr False"
    "length fiveWrong = 5" "failuresInWindow fiveWrong"
    "(Map.empty :: loginAttempts) (toLowerCase ''alice'') = None"
    "lastRecord 0 fiveWrong = 402500"
    using wrong right
    by (simp_all add: trim_def isWhiteSpace_def aliceRecord_def fiveWrong_def
          failuresInWindow_def attemptWindow_def)
  from lockout_after_five_failures[where compare=idealCompare and st=Map.empty,
         OF h(1) findUser_alice_plain h(2) h(3) h(4) h(5) h(6) h(7) h(8)]
  show ?thesis
    using findUser_alice_plain h by (simp add: lockoutDuration_def list_all_iff)
qed

lemma findUser_Alice: "findUser aliceFile ''Alice '' = Inr (Some aliceRecord)"
  by code_simp

text \<open>
  On the store with alice, \<^verbatim>\<open>verify("Alice ", password)\<close> with no entry on record for the
  name: the record of alice is found under the trimmed, lower-cased name, and the
  password goes to \<^verbatim>\<open>bcrypt.compare\<close> as it is.
\<close>

lemma verify_Alice:
  assumes "st ''alice '' = None"
  shows "fst (verifyCredentials aliceFile compare clock (JStr ''Alice '') (JStr password) st)
           = Inr (if password \<noteq> [] \<and> compare password (JStr (idealHash ''pw12345678'')) = Inr True
                  then Some aliceRecord else None)"
proof -
  obtain now1 now2 now3 where clock: "clock = (now1, now2, now3)" by (cases clock) auto
  have key: "toLowerCase ''Alice '' = ''alice ''" "trim ''Alice '' \<noteq> []"
    by code_simp+
  have unl: "isLockedOut now1 now2 ''Alice '' st = (False, st)"
    using assms(1) by (simp add: isLockedOut_def key(1))
  have hash: "getProp aliceRecord ''passwordHash'' = Inr (JStr (idealHash ''pw12345678''))"
    by (simp add: aliceRecord_def)
  show ?thesis
  proof (cases "password = []")
    case True
    then show ?thesis
      by (simp add: verifyCredentials_def verifyCredentialsBody_def clock tryCatch_def)
  next
    case False
    show ?thesis
    proof (cases "compare password (JStr (idealHash ''pw12345678''))")
      case (Inl e)
      then show ?thesis
        using False key(2) unl
        by (simp add: verifyCredentials_def verifyCredentialsBody_def clock findUser_Alice hash
              bindE_def tryCatch_def)
    next
      case (Inr b)
      then show ?thesis
        using False key(2) unl
        by (simp add: verifyCredentials_def verifyCredentialsBody_def clock findUser_Alice hash
              bindE_def tryCatch_def)
    qed
  qed
qed

lemma idealCompare_spaced: "idealCompare '' pw12345678'' (JStr (idealHash ''pw12345678'')) = Inr False"
  by code_simp

lemma idealCompare_exact: "idealCompare ''pw12345678'' (JStr (idealHash ''pw12345678'')) = Inr True"
  by code_simp

text \<open>
  Claim C5 as stated fails: on the store with alice and the hash of \<^verbatim>\<open>pw12345678\<close>, the
  call \<^verbatim>\<open>verify("Alice ", " pw12345678")\<close> finds the record of alice, but the password
  with its leading space is not the hashed one, and the call returns null.
\<close>

theorem verifyCredentials_spaced_password_counterexample:
  "findUser aliceFile ''Alice '' = Inr (Some aliceRecord)
   \<and> getProp aliceRecord ''passwordHash'' = Inr (JStr (idealHash ''pw12345678''))
   \<and> fst (verifyCredentials aliceFile idealCompare (1000, 1000, 3500) (JStr ''Alice '') (JStr '' pw12345678'')
            Map.empty) = Inr None"
  using verify_Alice[where st=Map.empty and password="'' pw12345678''" and clock="(1000, 1000, 3500)"
          and compare=idealCompare]
    findUser_Alice idealCompare_spaced
  by (simp add: aliceRecord_def)

text \<open>
  Claim C5, amended. On that store, with no failure on record for the name,
  \<^verbatim>\<open>verify("Alice ", "pw12345678")\<close> returns the record of alice: the user name is
  compared lower-cased and trimmed. The password is not trimmed, and
  \<^verbatim>\<open>verify("Alice ", " pw12345678")\<close> returns null: whatever \<^verbatim>\<open>bcrypt.compare\<close> is,
  \<^verbatim>\<open>verify("Alice ", password)\<close> returns the record of alice when the password is not empty
  and \<^verbatim>\<open>bcrypt.compare\<close> accepts it, as it was given, for the stored hash, and null in
  every other case.
\<close>

theorem verifyCredentials_alice_password_as_given:
  assumes "st ''alice '' = None"
  shows "fst (verifyCredentials aliceFile idealCompare clock (JStr ''Alice '') (JStr ''pw12345678'') st)
           = Inr (Some aliceRecord)
       \<and> fst (verifyCredentials aliceFile idealCompare clock (JStr ''Alice '') (JStr '' pw12345678'') st)
           = Inr None
       \<and> fst (verifyCredentials aliceFile compare clock (JStr ''Alice '') (JStr password) st)
           = Inr (if password \<noteq> [] \<and> compare password (JStr (idealHash ''pw12345678'')) = Inr True
                  then Some aliceRecord else None)"
  using verify_Alice[where st=st and clock=clock and password="''pw12345678''" and compare=idealCompare, OF assms]
    verify_Alice[where st=st and clock=clock and password="'' pw12345678''" and compare=idealCompare, OF assms]
    verify_Alice[where st=st and clock=clock and password=password and compare=compare, OF assms]
    idealCompare_exact idealCompare_spaced
  by simp

lemma idealCompare_others:
  "idealCompare (''pw12345678'' @ [CHR 0x00] @ ''pw12345678'') (JStr (idealHash ''pw12345678'')) = Inr True"
  "idealCompare ''Pw12345678'' (JStr (idealHash ''pw12345678'')) = Inr False"
  by code_simp+

theorem verifyCredentials_alice_password_as_given_witness:
  "(Map.empty :: loginAttempts) ''alice '' = None
   \<and> fst (verifyCredentials aliceFile idealCompare (1000, 1000, 3500) (JStr ''Alice '') (JStr ''pw12345678'')
            Map.empty) = Inr (Some aliceRecord)
   \<and> fst (verifyCredentials aliceFile idealCompare (1000, 1000, 3500) (JStr ''Alice '') (JStr ''Pw12345678'')
            Map.empty) = Inr None
   \<and> fst (verifyCredentials aliceFile idealCompare (1000, 1000, 3500) (JStr ''Alice '')
            (JStr (''pw12345678'' @ [CHR 0x00] @ ''pw12345678'')) Map.empty) = Inr (Some aliceRecord)
   \<and> fst (verifyCredentials aliceFile (\<lambda>password hash. Inl BcryptError) (1000, 1000, 3500) (JStr ''Alice '')
            (JStr ''pw12345678'') Map.empty) = Inr None"
  using verifyCredentials_alice_password_as_given[where st=Map.empty and clock="(1000, 1000, 3500)"
          and compare=idealCompare and password="''Pw12345678''"]
    verifyCredentials_alice_password_as_given[where st=Map.empty and clock="(1000, 1000, 3500)"
          and compare=idealCompare and password="''pw12345678'' @ [CHR 0x00] @ ''pw12345678''"]
    verifyCredentials_alice_password_as_given[where st=Map.empty and clock="(1000, 1000, 3500)"
          and compare="\<lambda>password hash. Inl BcryptError" and password="''pw12345678''"]
    idealCompare_others
  by simp

subsection \<open>Counting failures\<close>

lemma recordRun_count:
  assumes "st (toLowerCase username) = Some a" and "gapsInWindow (lastAttempt a) moments"
  shows "\<exists>a'. recordRun username moments st (toLowerCase username) = Some a'
           \<and> count a' = count a + int (length moments)
           \<and> lastAttempt a' = last (lastAttempt a # moments)
           \<and> (maxAttempts \<le> count a' \<and> moments \<noteq> [] \<longrightarrow> lockedUntil a' = Some (lastAttempt a' + lockoutDuration))"
  using assms
proof (induction moments arbitrary: st a)
  case Nil
  then show ?case by simp
next
  case (Cons now moments)
  define a1 where "a1 = a\<lparr>count := count a + 1, lastAttempt := now\<rparr>"
  define a2 where "a2 = (if maxAttempts \<le> count a1 then a1\<lparr>lockedUntil := Some (now + lockoutDuration)\<rparr> else a1)"
  define st1 where "st1 = snd (recordFailedAttempt now username st)"
  have gap: "now - lastAttempt a \<le> attemptWindow" "gapsInWindow now moments"
    using Cons.prems(2) by simp_all
  have st1: "st1 (toLowerCase username) = Some a2"
    using Cons.prems(1) gap(1)
    by (simp add: st1_def recordFailedAttempt_def Let_def a2_def a1_def)
  have a2: "count a2 = count a + 1" "lastAttempt a2 = now"
    "maxAttempts \<le> count a2 \<longrightarrow> lockedUntil a2 = Some (now + lockoutDuration)"
    by (simp_all add: a2_def a1_def)
  have g: "gapsInWindow (lastAttempt a2) moments" using gap(2) a2(2) by simp
  from Cons.IH[where st=st1 and a=a2, OF st1 g] obtain a' where a':
    "recordRun username moments st1 (toLowerCase username) = Some a'"
    "count a' = count a2 + int (length moments)"
    "lastAttempt a' = last (lastAttempt a2 # moments)"
    "maxAttempts \<le> count a' \<and> moments \<noteq> [] \<longrightarrow> lockedUntil a' = Some (lastAttempt a' + lockoutDuration)"
    by blast
  have lock: "maxAttempts \<le> count a' \<longrightarrow> lockedUntil a' = Some (lastAttempt a' + lockoutDuration)"
  proof (cases "moments = []")
    case True
    then have "a' = a2" using a'(1) st1 by simp
    then show ?thesis using a2 by simp
  next
    case False
    then show ?thesis using a'(4) by simp
  qed
  show ?case
    using a'(1,2,3) a2 lock by (simp add: st1_def)
qed

lemma recordRun_fresh:
  assumes "st (toLowerCase username) = None" and "gapsInWindow now moments"
  shows "\<exists>a. recordRun username (now # moments) st (toLowerCase username) = Some a
           \<and> count a = 1 + int (length moments)
           \<and> lastAttempt a = last (now # moments)
           \<and> (maxAttempts \<le> count a \<longrightarrow> lockedUntil a = Some (lastAttempt a + lockoutDuration))"
proof -
  define st1 where "st1 = snd (recordFailedAttempt now username st)"
  define a1 where "a1 = \<lparr>count = 1, lastAttempt = now, lockedUntil = None\<rparr>"
  have st1: "st1 (toLowerCase username) = Some a1"
    using assms(1) by (simp add: st1_def a1_def recordFailedAttempt_def)
  have g: "gapsInWindow (lastAttempt a1) moments" using assms(2) by (simp add: a1_def)
  from recordRun_count[where st=st1 and a=a1, OF st1 g] obtain a where a:
    "recordRun username moments st1 (toLowerCase username) = Some a"
    "count a = count a1 + int (length moments)"
    "lastAttempt a = last (lastAttempt a1 # moments)"
    "maxAttempts \<le> count a \<and> moments \<noteq> [] \<longrightarrow> lockedUntil a = Some (lastAttempt a + lockoutDuration)"
    by blast
  have "moments = [] \<longrightarrow> \<not> maxAttempts \<le> count a"
    using a(2) by (simp add: a1_def maxAttempts_def)
  then show ?thesis
    using a by (auto simp: st1_def a1_def)
qed

text \<open>
  Consecutive \<open>recordFailedAttempt\<close> calls for one user name lose no update: starting
  with no entry, after calls at times each at most five minutes after the one before,
  the count is the number of calls, and once it has reached 5 the entry is locked until
  15 minutes after the last call.
\<close>

theorem recordFailedAttempt_no_lost_update:
  assumes "st (toLowerCase username) = None" and "gapsInWindow now moments"
  shows "\<exists>a. recordRun username (now # moments) st (toLowerCase username) = Some a
           \<and> count a = 1 + int (length moments)
           \<and> lastAttempt a = last (now # moments)
           \<and> (maxAttempts \<le> count a \<longrightarrow> lockedUntil a = Some (lastAttempt a + lockoutDuration))"
  using assms by (rule recordRun_fresh)

theorem recordFailedAttempt_no_lost_update_witness:
  "gapsInWindow 1000 [1001, 1001, 1002, 1003, 1003, 1004]
   \<and> (\<exists>a. recordRun ''alice'' [1000, 1001, 1001, 1002, 1003, 1003, 1004] Map.empty ''alice'' = Some a
          \<and> count a = 7 \<and> lockedUntil a = Some (1004 + lockoutDuration))"
proof -
  have k: "toLowerCase ''alice'' = ''alice''" by code_simp
  have g: "gapsInWindow 1000 [1001, 1001, 1002, 1003, 1003, 1004]"
    by (simp add: attemptWindow_def)
  have e: "(Map.empty :: loginAttempts) (toLowerCase ''alice'') = None" by simp
  from recordFailedAttempt_no_lost_update[where st=Map.empty and username="''alice''", OF e g]
  obtain a where "recordRun ''alice'' [1000, 1001, 1001, 1002, 1003, 1003, 1004] Map.empty ''alice'' = Some a"
    "count a = 7" "maxAttempts \<le> count a \<longrightarrow> lockedUntil a = Some (lastAttempt a + lockoutDuration)"
    "lastAttempt a = 1004"
    unfolding k by auto
  then show ?thesis
    using g by (auto simp: maxAttempts_def)
qed

section \<open>Properties of concurrent verifications\<close>

text \<open>The two tasks of a call, run one after the other, are the call.\<close>

lemma verifyCredentials_tasks:
  "verifyCredentials file compare (now1, now2, now3) username password st =
     (case verifyCredentialsStart file compare (now1, now2, now3) username password st of
        (Returned r, st1) \<Rightarrow> (Inr r, st1)
      | (Awaiting user settled, st1) \<Rightarrow>
          (case verifyCredentialsResume now3 username user settled st1 of (r, st2) \<Rightarrow> (Inr r, st2)))"
  by (auto simp: verifyCredentials_def verifyCredentialsBody_def verifyCredentialsStart_def
        verifyCredentialsResume_def tryCatch_def bindE_def
      split: prod.splits sum.splits option.splits bool.splits)















section \<open>Round trips of the platform codecs\<close>

subsection \<open>base64url\<close>

lemma sextet_arith1:
  fixes a b :: int
  assumes "0 \<le> b" "b < 256"
  shows "(a div 4) * 4 + ((a mod 4) * 16 + b div 16) div 16 = a"
proof -
  have "b div 16 < 16" "0 \<le> b div 16" using assms by simp_all
  then have "((a mod 4) * 16 + b div 16) div 16 = a mod 4"
    by (simp add: div_pos_pos_trivial)
  then show ?thesis by simp
qed

lemma sextet_arith2:
  fixes a b c :: int
  assumes "0 \<le> b" "b < 256" "0 \<le> c" "c < 256"
  shows "(((a mod 4) * 16 + b div 16) mod 16) * 16 + ((b mod 16) * 4 + c div 64) div 4 = b"
proof -
  have "b div 16 < 16" "0 \<le> b div 16" using assms by simp_all
  then have 1: "((a mod 4) * 16 + b div 16) mod 16 = b div 16"
    by (simp add: mod_pos_pos_trivial)
  have "c div 64 < 4" "0 \<le> c div 64" using assms by simp_all
  then have 2: "((b mod 16) * 4 + c div 64) div 4 = b mod 16"
    by (simp add: div_pos_pos_trivial)
  show ?thesis unfolding 1 2 by simp
qed

lemma sextet_arith3:
  fixes b c :: int
  assumes "0 \<le> c" "c < 256"
  shows "(((b mod 16) * 4 + c div 64) mod 4) * 64 + c mod 64 = c"
proof -
  have "c div 64 < 4" "0 \<le> c div 64" using assms by simp_all
  then have 1: "((b mod 16) * 4 + c div 64) mod 4 = c div 64"
    by (simp add: mod_pos_pos_trivial)
  show ?thesis unfolding 1 by simp
qed

lemma sextet_range:
  fixes a b :: int
  assumes "0 \<le> a" "a < 256" "0 \<le> b" "b < 256"
  shows "0 \<le> a div 4 \<and> a div 4 < 64"
    and "0 \<le> (a mod 4) * 16 + b div 16 \<and> (a mod 4) * 16 + b div 16 < 64"
    and "0 \<le> (a mod 16) * 4 + b div 64 \<and> (a mod 16) * 4 + b div 64 < 64"
    and "0 \<le> a mod 64 \<and> a mod 64 < 64"
proof -
  have "a mod 4 < 4" "0 \<le> a mod 4" "a mod 16 < 16" "0 \<le> a mod 16" "b div 16 < 16" "0 \<le> b div 16"
    "b div 64 < 4" "0 \<le> b div 64"
    using assms by simp_all
  then show "0 \<le> (a mod 4) * 16 + b div 16 \<and> (a mod 4) * 16 + b div 16 < 64"
    "0 \<le> (a mod 16) * 4 + b div 64 \<and> (a mod 16) * 4 + b div 64 < 64"
    by linarith+
  show "0 \<le> a div 4 \<and> a div 4 < 64"
    using assms by presburger
  show "0 \<le> a mod 64 \<and> a mod 64 < 64"
    by simp
qed

lemma bytes_roundtrip:
  "\<forall>b\<in>set bs. 0 \<le> b \<and> b < 256 \<Longrightarrow> sextetsToBytes (bytesToSextets bs) = bs"
proof (induction bs rule: bytesToSextets.induct)
  case (1 a b c rest)
  then have r: "0 \<le> a" "a < 256" "0 \<le> b" "b < 256" "0 \<le> c" "c < 256" by simp_all
  have "sextetsToBytes (bytesToSextets rest) = rest" using 1 by simp
  then show ?case
    unfolding bytesToSextets.simps sextetsToBytes.simps
      sextet_arith1[OF r(3,4)] sextet_arith2[OF r(3,4,5,6)] sextet_arith3[OF r(5,6)]
    by simp
next
  case (2 a b)
  then have r: "0 \<le> a" "a < 256" "0 \<le> b" "b < 256" by simp_all
  have z: "(0::int) \<le> 0" "(0::int) < 256" by simp_all
  show ?case
    unfolding bytesToSextets.simps sextetsToBytes.simps sextet_arith1[OF r(3,4)]
    using sextet_arith2[OF r(3,4) z, of a] by simp
next
  case (3 a)
  have z: "(0::int) \<le> 0" "(0::int) < 256" by simp_all
  show ?case
    unfolding bytesToSextets.simps sextetsToBytes.simps
    using sextet_arith1[OF z, of a] by simp
next
  case 4
  then show ?case by simp
qed

lemma sextets_range:
  "\<forall>b\<in>set bs. 0 \<le> b \<and> b < 256 \<Longrightarrow> \<forall>s\<in>set (bytesToSextets bs). 0 \<le> s \<and> s < 64"
proof (induction bs rule: bytesToSextets.induct)
  case (1 a b c rest)
  then have r: "0 \<le> a" "a < 256" "0 \<le> b" "b < 256" "0 \<le> c" "c < 256" by simp_all
  have "\<forall>s\<in>set (bytesToSextets rest). 0 \<le> s \<and> s < 64" using 1 by simp
  then show ?case
    using sextet_range(1,2)[OF r(1,2,3,4)] sextet_range(3)[OF r(3,4,5,6)] sextet_range(4)[OF r(5,6,5,6)]
    by simp
next
  case (2 a b)
  then have r: "0 \<le> a" "a < 256" "0 \<le> b" "b < 256" by simp_all
  have z: "(0::int) \<le> 0" "(0::int) < 256" by simp_all
  show ?case
    using sextet_range(1,2)[OF r(1,2,3,4)] sextet_range(3)[OF r(3,4) z] by simp
next
  case (3 a)
  then have r: "0 \<le> a" "a < 256" by simp_all
  have z: "(0::int) \<le> 0" "(0::int) < 256" by simp_all
  show ?case
    using sextet_range(1,2)[OF r z] by simp
next
  case 4
  then show ?case by simp
qed

lemma unbase64_base64Char:
  assumes "0 \<le> n" "n < 64"
  shows "unbase64 (base64Char n) = Some n" and "base64Char n \<noteq> CHR ''=''"
proof -
  consider "n < 26" | "26 \<le> n \<and> n < 52" | "52 \<le> n \<and> n < 62" | "n = 62" | "n = 63"
    using assms by linarith
  then have "unbase64 (base64Char n) = Some n \<and> base64Char n \<noteq> CHR ''=''"
  proof cases
    case 1
    then have "of_char (base64Char n) = 65 + n"
      using assms by (simp add: base64Char_def)
    then show ?thesis using 1 assms by (auto simp: unbase64_def)
  next
    case 2
    then have "of_char (base64Char n) = 71 + n"
      using assms by (simp add: base64Char_def)
    then show ?thesis using 2 assms by (auto simp: unbase64_def)
  next
    case 3
    then have "of_char (base64Char n) = n - 4"
      using assms by (simp add: base64Char_def)
    then show ?thesis using 3 assms by (auto simp: unbase64_def)
  next
    case 4
    then show ?thesis by (simp add: base64Char_def unbase64_def)
  next
    case 5
    then show ?thesis by (simp add: base64Char_def unbase64_def)
  qed
  then show "unbase64 (base64Char n) = Some n" and "base64Char n \<noteq> CHR ''=''" by simp_all
qed

lemma base64_chars_roundtrip:
  "\<forall>s\<in>set ss. 0 \<le> s \<and> s < 64 \<Longrightarrow>
   List.map_filter unbase64 (takeWhile (\<lambda>c. c \<noteq> CHR ''='') (map base64Char ss)) = ss"
  by (induction ss) (simp_all add: unbase64_base64Char)

lemma of_char_range: "0 \<le> (of_char c :: int) \<and> (of_char c :: int) < 256"
proof -
  have "(of_char c :: int) = int (of_char c :: nat)" by (simp add: of_char_def)
  moreover have "(of_char c :: nat) < 256" by simp
  ultimately show ?thesis by simp
qed

lemma base64url_roundtrip: "base64urlDecode (base64urlEncode s) = s"
proof -
  let ?bs = "map of_char s :: int list"
  have r: "\<forall>b\<in>set ?bs. 0 \<le> b \<and> b < 256" using of_char_range by auto
  have "List.map_filter unbase64 (takeWhile (\<lambda>c. c \<noteq> CHR ''='') (map base64Char (bytesToSextets ?bs)))
          = bytesToSextets ?bs"
    using sextets_range[OF r] by (rule base64_chars_roundtrip)
  then have "base64urlDecode (base64urlEncode s) = map char_of (sextetsToBytes (bytesToSextets ?bs))"
    by (simp add: base64urlDecode_def base64urlEncode_def)
  also have "\<dots> = map char_of ?bs" using bytes_roundtrip[OF r] by simp
  also have "\<dots> = s" by (simp add: comp_def map_idI)
  finally show ?thesis .
qed

subsection \<open>String literals\<close>

lemma char_of_of_int: "char_of (of_char c :: int) = c"
  by simp

lemma of_char_int_range: "0 \<le> (of_char c :: int)" "(of_char c :: int) < 256"
proof -
  have "(of_char c :: int) = int (of_char c :: nat)" by (simp add: of_char_def)
  moreover have "(of_char c :: nat) < 256" by simp
  ultimately show "0 \<le> (of_char c :: int)" "(of_char c :: int) < 256" by simp_all
qed

lemma of_char_char_of_int: "0 \<le> n \<Longrightarrow> n < 256 \<Longrightarrow> (of_char (char_of (n::int)) :: int) = n"
  by simp

lemma char_eq_code: "(of_char c :: int) = n \<Longrightarrow> c = char_of n"
  using char_of_of_int[of c] by simp

lemma control_chars:
  "char_of (8::int) = CHR 0x08" "char_of (9::int) = CHR 0x09" "char_of (10::int) = CHR 0x0A"
  "char_of (12::int) = CHR 0x0C" "char_of (13::int) = CHR 0x0D"
  "(of_char (CHR 0x22) :: int) = 34" "(of_char (CHR 0x5C) :: int) = 92"
  by code_simp+

lemma hexVal_hexDigit: "0 \<le> d \<Longrightarrow> d < 16 \<Longrightarrow> hexVal (hexDigit d) = Some d"
  by (auto simp: hexVal_def hexDigit_def Let_def)

lemma hexVal_zero: "hexVal (CHR ''0'') = Some 0"
  by (simp add: hexVal_def)

lemma parseStr_escapeChar: "parseStr acc (escapeChar c @ follow) = parseStr (c # acc) follow"
proof -
  define n where "n = (of_char c :: int)"
  have n: "0 \<le> n" "n < 256" and c: "c = char_of n"
    using of_char_int_range[of c] by (simp_all add: n_def)
  consider (quote) "c = CHR 0x22" | (backslash) "c = CHR 0x5C"
    | (b) "n = 8" | (f) "n = 12" | (nl) "n = 10" | (cr) "n = 13" | (tab) "n = 9"
    | (ctl) "n < 32" "n \<noteq> 8" "n \<noteq> 12" "n \<noteq> 10" "n \<noteq> 13" "n \<noteq> 9"
    | (plain) "32 \<le> n" "c \<noteq> CHR 0x22" "c \<noteq> CHR 0x5C"
    by linarith
  then show ?thesis
  proof cases
    case quote
    then show ?thesis by (simp add: escapeChar_def unescape_def)
  next
    case backslash
    then show ?thesis by (simp add: escapeChar_def unescape_def)
  next
    case b
    then have "c = CHR 0x08" using c by (simp add: control_chars)
    then show ?thesis by (simp add: escapeChar_def unescape_def)
  next
    case f
    then have "c = CHR 0x0C" using c by (simp add: control_chars)
    then show ?thesis by (simp add: escapeChar_def unescape_def)
  next
    case nl
    then have "c = CHR 0x0A" using c by (simp add: control_chars)
    then show ?thesis by (simp add: escapeChar_def unescape_def)
  next
    case cr
    then have "c = CHR 0x0D" using c by (simp add: control_chars)
    then show ?thesis by (simp add: escapeChar_def unescape_def)
  next
    case tab
    then have "c = CHR 0x09" using c by (simp add: control_chars)
    then show ?thesis by (simp add: escapeChar_def unescape_def)
  next
    case ctl
    have ne: "c \<noteq> CHR 0x22" "c \<noteq> CHR 0x5C"
      using ctl(1) control_chars(6,7) n_def by auto
    have d: "0 \<le> n div 16" "n div 16 < 16" "0 \<le> n mod 16" "n mod 16 < 16"
      using n ctl(1) by simp_all
    have esc: "escapeChar c = [CHR 0x5C, CHR ''u'', CHR ''0'', CHR ''0'', hexDigit (n div 16), hexDigit (n mod 16)]"
      using ne ctl by (simp add: escapeChar_def n_def[symmetric] Let_def)
    have "hex4 [CHR ''0'', CHR ''0'', hexDigit (n div 16), hexDigit (n mod 16)] = Some (n div 16 * 16 + n mod 16)"
      by (simp add: hexVal_zero hexVal_hexDigit d)
    then have h: "hex4 [CHR ''0'', CHR ''0'', hexDigit (n div 16), hexDigit (n mod 16)] = Some n"
      by simp
    show ?thesis
      unfolding esc using h ctl(1) c by simp
  next
    case plain
    then have "escapeChar c = [c]"
      by (simp add: escapeChar_def n_def[symmetric] Let_def)
    then show ?thesis
      using plain by (simp add: n_def[symmetric])
  qed
qed

lemma parseStr_escaped:
  "parseStr acc (concat (map escapeChar s) @ CHR 0x22 # rest) = Some (rev acc @ s, rest)"
proof (induction s arbitrary: acc)
  case Nil
  then show ?case by simp
next
  case (Cons c s)
  have "parseStr acc (concat (map escapeChar (c # s)) @ CHR 0x22 # rest)
          = parseStr acc (escapeChar c @ (concat (map escapeChar s) @ CHR 0x22 # rest))"
    by simp
  also have "\<dots> = parseStr (c # acc) (concat (map escapeChar s) @ CHR 0x22 # rest)"
    by (rule parseStr_escapeChar)
  also have "\<dots> = Some (rev (c # acc) @ s, rest)"
    by (rule Cons.IH)
  finally show ?case by simp
qed

lemma parseStr_quote: "parseStr [] (tl (quote s) @ rest) = Some (s, rest)"
  using parseStr_escaped[of "[]" s rest] by (simp add: quote_def)

subsection \<open>Number literals\<close>

lemma digit_char: "0 \<le> d \<Longrightarrow> d < 10 \<Longrightarrow> (of_char (char_of (48 + d :: int)) :: int) = 48 + d"
  by simp

lemma showDigits_nonempty: "showDigits n \<noteq> []"
  by (subst showDigits.simps) simp

lemma showDigits_isDigit: "0 \<le> n \<Longrightarrow> c \<in> set (showDigits n) \<Longrightarrow> isDigit c"
proof (induction n rule: showDigits.induct)
  case (1 n)
  show ?case
  proof (cases "n < 10")
    case True
    then have "c = char_of (48 + n)" using 1 by (subst (asm) (2) showDigits.simps) simp
    then show ?thesis using True 1(2) by (simp add: isDigit_def)
  next
    case False
    then have "c \<in> set (showDigits (n div 10)) \<or> c = char_of (48 + n mod 10)"
      using 1(3) by (subst (asm) showDigits.simps) auto
    then show ?thesis
    proof
      assume "c \<in> set (showDigits (n div 10))"
      then show ?thesis using 1(1)[OF False] 1(2) by simp
    next
      assume "c = char_of (48 + n mod 10)"
      moreover have "0 \<le> n mod 10" "n mod 10 < 10" by simp_all
      ultimately show ?thesis by (simp add: isDigit_def)
    qed
  qed
qed

lemma digitsVal_snoc: "digitsVal (ds @ [d]) = 10 * digitsVal ds + (of_char d - 48)"
  by (simp add: digitsVal_def)

lemma digitsVal_showDigits: "0 \<le> n \<Longrightarrow> digitsVal (showDigits n) = n"
proof (induction n rule: showDigits.induct)
  case (1 n)
  show ?case
  proof (cases "n < 10")
    case True
    then have "showDigits n = [char_of (48 + n)]" by (subst showDigits.simps) simp
    then show ?thesis using True 1(2) by (simp add: digitsVal_def)
  next
    case False
    then have s: "showDigits n = showDigits (n div 10) @ [char_of (48 + n mod 10)]"
      by (subst showDigits.simps) simp
    have "digitsVal (showDigits (n div 10)) = n div 10"
      using 1(1)[OF False] 1(2) by simp
    moreover have "0 \<le> n mod 10" "n mod 10 < 10" by simp_all
    ultimately show ?thesis
      unfolding s digitsVal_snoc by simp
  qed
qed

lemma showDigits_hd: "0 < n \<Longrightarrow> hd (showDigits n) \<noteq> CHR ''0''"
proof (induction n rule: showDigits.induct)
  case (1 n)
  show ?case
  proof (cases "n < 10")
    case True
    then have s: "showDigits n = [char_of (48 + n)]" by (subst showDigits.simps) simp
    have "(of_char (char_of (48 + n)) :: int) = 48 + n" using True 1(2) by simp
    moreover have "(of_char (CHR ''0'') :: int) = 48" by simp
    ultimately have "char_of (48 + n) \<noteq> CHR ''0''" using 1(2) by force
    then show ?thesis by (simp add: s)
  next
    case False
    then have s: "showDigits n = showDigits (n div 10) @ [char_of (48 + n mod 10)]"
      by (subst showDigits.simps) simp
    have "0 < n div 10" using False by simp
    then have "hd (showDigits (n div 10)) \<noteq> CHR ''0''" using 1(1)[OF False] by simp
    then show ?thesis by (simp add: s showDigits_nonempty)
  qed
qed

lemma takeWhile_digits:
  assumes "0 \<le> n" and "numberEnd rest"
  shows "takeWhile isDigit (showDigits n @ rest) = showDigits n"
proof -
  have "takeWhile isDigit rest = []"
    using assms(2) by (cases rest) (simp_all add: numberEnd_def)
  moreover have "\<forall>c\<in>set (showDigits n). isDigit c"
    using showDigits_isDigit[OF assms(1)] by blast
  ultimately show ?thesis by (simp add: takeWhile_append2)
qed

lemma parseNumber_nonneg:
  assumes "0 \<le> n" and "numberEnd rest"
  shows "parseNumber (showDigits n @ rest) = Some (n, rest)"
    and "\<not> isJsonSpace (hd (showDigits n))" and "hd (showDigits n) \<noteq> CHR ''-''"
proof -
  obtain c r where cr: "showDigits n = c # r"
    using showDigits_nonempty[of n] by (cases "showDigits n") auto
  have dig: "isDigit c" using showDigits_isDigit[OF assms(1), of c] cr by simp
  then show "\<not> isJsonSpace (hd (showDigits n))" and minus: "hd (showDigits n) \<noteq> CHR ''-''"
    by (auto simp: cr isDigit_def isJsonSpace_def Let_def)
  have nm: "c \<noteq> CHR ''-''" using minus cr by simp
  have ends: "\<not> (case rest of [] \<Rightarrow> False | c # r \<Rightarrow> c = CHR ''.'' \<or> c = CHR ''e'' \<or> c = CHR ''E'')"
    using assms(2) by (cases rest) (simp_all add: numberEnd_def)
  show "parseNumber (showDigits n @ rest) = Some (n, rest)"
  proof (cases "n = 0")
    case True
    have "char_of (48 :: int) = CHR ''0''" by code_simp
    then have z: "showDigits 0 = ''0''" by (subst showDigits.simps) simp
    show ?thesis using ends
      by (simp add: True parseNumber_def z digitsVal_def Let_def)
  next
    case False
    then have "0 < n" using assms(1) by simp
    then have nz: "c \<noteq> CHR ''0''" using showDigits_hd[of n] cr by simp
    have tw: "takeWhile isDigit (c # r @ rest) = c # r"
      using takeWhile_digits[OF assms] cr by simp
    have dv: "digitsVal (c # r) = n" using digitsVal_showDigits[OF assms(1)] cr by simp
    show ?thesis
      using nm nz ends
      by (simp add: parseNumber_def cr Let_def tw dv del: takeWhile.simps)
  qed
qed

lemma parseNumber_showInt:
  assumes "numberEnd rest"
  shows "parseNumber (showInt i @ rest) = Some (i, rest)"
proof (cases "i < 0")
  case False
  then show ?thesis using parseNumber_nonneg(1)[OF _ assms, of i] by (simp add: showInt_def)
next
  case True
  then have pos: "0 < - i" by simp
  obtain c r where cr: "showDigits (- i) = c # r"
    using showDigits_nonempty[of "- i"] by (cases "showDigits (- i)") auto
  have nz: "c \<noteq> CHR ''0''" using showDigits_hd[OF pos] cr by simp
  have tw: "takeWhile isDigit (c # r @ rest) = c # r"
    using takeWhile_digits[OF _ assms, of "- i"] pos cr by simp
  have dv: "digitsVal (c # r) = - i" using digitsVal_showDigits[of "- i"] pos cr by simp
  have ends: "\<not> (case rest of [] \<Rightarrow> False | c # r \<Rightarrow> c = CHR ''.'' \<or> c = CHR ''e'' \<or> c = CHR ''E'')"
    using assms by (cases rest) (simp_all add: numberEnd_def)
  show ?thesis
    using True nz ends
    by (simp add: parseNumber_def showInt_def cr Let_def tw dv del: takeWhile.simps)
qed

subsection \<open>Objects without nesting\<close>

lemma memberEnd_numberEnd: "memberEnd rest \<Longrightarrow> numberEnd rest"
  by (cases rest) (auto simp: memberEnd_def numberEnd_def isDigit_def)

lemma skipWs_nonspace: "\<not> isJsonSpace c \<Longrightarrow> skipWs (c # cs) = c # cs"
  by (simp add: skipWs_def)

lemma memberEnd_skipWs: "memberEnd rest \<Longrightarrow> skipWs rest = rest"
  by (cases rest) (auto simp: memberEnd_def skipWs_def isJsonSpace_def)

lemma number_start:
  assumes "isDigit c \<or> c = CHR ''-''"
  shows "\<not> isJsonSpace c" "c \<noteq> CHR ''{''" "c \<noteq> CHR ''[''" "c \<noteq> CHR 0x22"
    "c \<noteq> CHR ''t''" "c \<noteq> CHR ''f''" "c \<noteq> CHR ''n''"
  using assms by (auto simp: isDigit_def isJsonSpace_def Let_def)

lemma showInt_start: "\<exists>c cs. showInt i = c # cs \<and> (isDigit c \<or> c = CHR ''-'')"
proof (cases "i < 0")
  case True
  then show ?thesis by (simp add: showInt_def)
next
  case False
  obtain c r where cr: "showDigits i = c # r"
    using showDigits_nonempty[of i] by (cases "showDigits i") auto
  then have "isDigit c" using showDigits_isDigit[of i c] False by simp
  then show ?thesis using False cr by (simp add: showInt_def)
qed

lemma parseValue_number:
  assumes "isDigit c \<or> c = CHR ''-''"
  shows "parseValue (Suc n) (c # cs)
           = (case parseNumber (c # cs) of None \<Rightarrow> None | Some (i, r) \<Rightarrow> Some (JNum i, r))"
  using number_start[OF assms] by (simp add: skipWs_nonspace)

lemma quote_Cons: "quote s = CHR 0x22 # tl (quote s)"
  by (simp add: quote_def)

lemma parseValue_flat:
  assumes "flatValue v" and "memberEnd rest"
  shows "parseValue (Suc n) (JSON_stringify v @ rest) = Some (v, rest)"
proof (cases v)
  case (JStr s)
  have sp: "\<not> isJsonSpace (CHR 0x22)" by (simp add: isJsonSpace_def)
  have e: "JSON_stringify v @ rest = CHR 0x22 # tl (quote s) @ rest"
    using JStr by (simp add: quote_def)
  show ?thesis
    unfolding e by (simp add: skipWs_nonspace[OF sp] parseStr_quote JStr)
next
  case (JNum i)
  obtain c cs where st: "showInt i = c # cs" "isDigit c \<or> c = CHR ''-''"
    using showInt_start by blast
  have "parseNumber (showInt i @ rest) = Some (i, rest)"
    using parseNumber_showInt[OF memberEnd_numberEnd[OF assms(2)]] .
  then have "parseValue (Suc n) (c # cs @ rest) = Some (JNum i, rest)"
    using parseValue_number[OF st(2), of n "cs @ rest"] st(1) by simp
  then show ?thesis using JNum st(1) by simp
qed (use assms in simp_all)

lemma update_fresh: "k \<notin> fst ` set acc \<Longrightarrow> AList.update k v acc = acc @ [(k, v)]"
  by (induction acc) auto

lemma parseMembers_flat:
  assumes "ms \<noteq> []" and "\<forall>m\<in>set ms. flatValue (snd m)"
    and "distinct (map fst (acc @ ms))" and "length ms < fuel"
  shows "parseMembers fuel acc (joinWith '','' (map memberText ms) @ CHR ''}'' # rest)
           = Some (JObj (acc @ ms), rest)"
  using assms
proof (induction ms arbitrary: acc fuel)
  case Nil
  then show ?case by simp
next
  case (Cons m ms)
  obtain k v where m: "m = (k, v)" by (cases m)
  obtain n where fuel: "fuel = Suc n" "length ms < n"
    using Cons.prems(4) by (cases fuel) auto
  obtain n' where n: "n = Suc n'" using fuel(2) by (cases n) auto
  have flat: "flatValue v" using Cons.prems(2) m by simp
  have fresh: "k \<notin> fst ` set acc" using Cons.prems(3) m by auto
  have sp: "\<not> isJsonSpace (CHR 0x22)" "\<not> isJsonSpace (CHR '':'')"
    by (simp_all add: isJsonSpace_def)
  define tailText where
    "tailText = (if ms = [] then CHR ''}'' # rest
              else CHR '','' # joinWith '','' (map memberText ms) @ CHR ''}'' # rest)"
  have mt: "memberText m = CHR 0x22 # tl (quote k) @ CHR '':'' # JSON_stringify v"
    by (simp add: memberText_def m quote_def)
  have whole: "joinWith '','' (map memberText (m # ms)) @ CHR ''}'' # rest
                = CHR 0x22 # tl (quote k) @ CHR '':'' # JSON_stringify v @ tailText"
    by (cases ms) (simp_all add: tailText_def mt)
  have me: "memberEnd tailText" by (simp add: tailText_def memberEnd_def)
  have val: "parseValue n (JSON_stringify v @ tailText) = Some (v, tailText)"
    unfolding n by (rule parseValue_flat[OF flat me])
  have key: "parseStr [] (tl (quote k) @ CHR '':'' # JSON_stringify v @ tailText)
               = Some (k, CHR '':'' # JSON_stringify v @ tailText)"
    by (rule parseStr_quote)
  have sk: "skipWs tailText = tailText" by (rule memberEnd_skipWs[OF me])
  show ?case
  proof (cases "ms = []")
    case True
    then have a: "tailText = CHR ''}'' # rest" by (simp add: tailText_def)
    show ?thesis
      unfolding whole[unfolded a] fuel(1)
      by (simp add: skipWs_nonspace[OF sp(1)] skipWs_nonspace[OF sp(2)] key[unfolded a] val[unfolded a]
            update_fresh[OF fresh] sk[unfolded a] True m del: parseValue.simps)
  next
    case False
    then have a: "tailText = CHR '','' # joinWith '','' (map memberText ms) @ CHR ''}'' # rest"
      by (simp add: tailText_def)
    have d: "distinct (map fst ((acc @ [(k, v)]) @ ms))" using Cons.prems(3) m by simp
    have ih: "parseMembers n (acc @ [(k, v)]) (joinWith '','' (map memberText ms) @ CHR ''}'' # rest)
                = Some (JObj ((acc @ [(k, v)]) @ ms), rest)"
      using Cons.IH[OF False _ d fuel(2)] Cons.prems(2) by simp
    show ?thesis
      unfolding whole[unfolded a] fuel(1)
      by (simp add: skipWs_nonspace[OF sp(1)] skipWs_nonspace[OF sp(2)] key[unfolded a] val[unfolded a]
            update_fresh[OF fresh] m sk[unfolded a] ih del: parseValue.simps)
  qed
qed

lemma stringifyMembers_present:
  "stringifyMembers kvs = map memberText (filter (\<lambda>m. snd m \<noteq> JUndefined) kvs)"
  by (induction kvs) (auto simp: memberText_def)

lemma length_joinWith: "\<forall>x\<in>set xs. x \<noteq> [] \<Longrightarrow> length xs \<le> length (joinWith sep xs)"
proof (induction sep xs rule: joinWith.induct)
  case (1 sep)
  then show ?case by simp
next
  case (2 sep x)
  then show ?case by (cases x) simp_all
next
  case (3 sep x y ys)
  then have "x \<noteq> []" by simp
  then have "1 \<le> length x" by (cases x) simp_all
  moreover have "length (y # ys) \<le> length (joinWith sep (y # ys))" using 3 by simp
  ultimately show ?case by simp
qed

lemma memberText_nonempty: "memberText m \<noteq> []"
  by (simp add: memberText_def quote_def)

lemma JSON_parse_flat_object:
  assumes "ms = filter (\<lambda>m. snd m \<noteq> JUndefined) kvs" and "ms \<noteq> []"
    and "\<forall>m\<in>set ms. flatValue (snd m)" and "distinct (map fst ms)"
  shows "JSON_parse (JSON_stringify (JObj kvs)) = Some (JObj ms)"
proof -
  define inner where "inner = joinWith '','' (map memberText ms) @ ''}''"
  have s: "JSON_stringify (JObj kvs) = CHR ''{'' # inner"
    by (simp add: inner_def stringifyMembers_present assms(1))
  obtain m ms' where ms: "ms = m # ms'" using assms(2) by (cases ms) auto
  have "memberText m = CHR 0x22 # tl (quote (fst m)) @ '':'' @ JSON_stringify (snd m)"
    by (simp add: memberText_def quote_def)
  then obtain r where inner_hd: "inner = CHR 0x22 # r"
    by (cases ms') (simp_all add: inner_def ms)
  have "length ms \<le> length (joinWith '','' (map memberText ms))"
    using length_joinWith[of "map memberText ms" "'',''"] memberText_nonempty by simp
  then have fuel: "length ms < 2 * length (CHR ''{'' # inner) + 1"
    by (simp add: inner_def)
  have d: "distinct (map fst ([] @ ms))" using assms(4) by simp
  have pm: "parseMembers (2 * length (CHR ''{'' # inner) + 1) [] inner = Some (JObj ms, [])"
    using parseMembers_flat[OF assms(2,3) d fuel, of "[]"] by (simp add: inner_def)
  have sp: "\<not> isJsonSpace (CHR ''{'')" "\<not> isJsonSpace (CHR 0x22)"
    by (simp_all add: isJsonSpace_def)
  have f: "2 * length (CHR ''{'' # inner) + 2 = Suc (2 * length (CHR ''{'' # inner) + 1)"
    by simp
  have "parseValue (2 * length (CHR ''{'' # inner) + 2) (CHR ''{'' # inner) = Some (JObj ms, [])"
    unfolding f parseValue.simps
    using pm by (simp add: skipWs_nonspace[OF sp(1)] inner_hd skipWs_nonspace[OF sp(2)])
  then show ?thesis
    unfolding s JSON_parse_def by (simp add: skipWs_def)
qed

lemma sessionData_roundtrip:
  assumes "displayName = JUndefined \<or> (\<exists>d. displayName = JStr d)"
  shows "JSON_parse (base64urlDecode (encodeSession (sessionData (JStr name) displayName token createdAt expiresAt)))
           = Some (readBack (sessionData (JStr name) displayName token createdAt expiresAt))"
proof -
  let ?sd = "sessionData (JStr name) displayName token createdAt expiresAt"
  obtain kvs where kvs: "?sd = JObj kvs"
    "kvs = [(''username'', JStr name), (''displayName'', displayName), (''token'', JStr token),
            (''createdAt'', JNum createdAt), (''expiresAt'', JNum expiresAt)]"
    by (simp add: sessionData_def)
  define ms where "ms = filter (\<lambda>m. snd m \<noteq> JUndefined) kvs"
  have "ms \<noteq> []" "\<forall>m\<in>set ms. flatValue (snd m)" "distinct (map fst ms)"
    using assms by (auto simp: ms_def kvs(2))
  then have "JSON_parse (JSON_stringify (JObj kvs)) = Some (JObj ms)"
    using JSON_parse_flat_object[of ms kvs] ms_def by simp
  then show ?thesis
    by (simp add: encodeSession_def base64url_roundtrip kvs(1) ms_def)
qed

section \<open>Properties of the session codec\<close>

lemma aliceCookie_parses: "JSON_parse (base64urlDecode aliceCookie) = Some aliceSession"
  by code_simp

lemma tamperedCookie_parses: "JSON_parse (base64urlDecode tamperedCookie) = Some tamperedSession"
  by code_simp

lemma aliceCookie_value:
  "aliceCookie = ''eyJ1c2VybmFtZSI6ImFsaWNlIiwidG9rZW4iOiJxMXcyZTNyNHQ1eTZ1N2k4bzlwMGExczJkM2Y0ZzVoNmo3azhsOXoweDFjIiwiY3JlYXRlZEF0IjoxNzAwMDAwMDAwMDAwLCJleHBpcmVzQXQiOjE3MDAwODY0MDAwMDB9''"
  by code_simp

lemma createSession_alice:
  "createSession (Inr aliceToken) aliceLoginTime aliceLoginTime False (Inr None) aliceRecord
     = Inr (aliceToken, CookieSet \<lparr>cookieValue = aliceCookie, httpOnly = True, secure = False,
              sameSite = ''lax'', expires = aliceLoginTime + SESSION_DURATION_MS, path = ''/''\<rparr>)"
  by (simp add: createSession_def createSessionBody_def generateSessionToken_def tryCatch_def
        bindE_def aliceRecord_def aliceCookie_def Let_def)

lemma decodeSessionEdge_char:
  "decodeSessionEdge now c =
     Inr (case JSON_parse (base64urlDecode c) of
            None \<Rightarrow> None
          | Some session \<Rightarrow>
              if wellFormedSession session \<and> now \<le> expiresAtOf session then Some session else None)"
proof (cases "JSON_parse (base64urlDecode c)")
  case None
  then show ?thesis
    by (simp add: decodeSessionEdge_def decodeSessionEdgeBody_def tryCatch_def)
next
  case (Some session)
  show ?thesis
  proof (cases "session = JNull \<or> session = JUndefined")
    case True
    then show ?thesis using Some
      by (auto simp: decodeSessionEdge_def decodeSessionEdgeBody_def tryCatch_def bindE_def
            wellFormedSession_def)
  next
    case False
    then obtain u t x where p: "getProp session ''username'' = Inr u"
      "getProp session ''token'' = Inr t" "getProp session ''expiresAt'' = Inr x"
      by (cases session) auto
    show ?thesis
      using Some p
      by (cases u; cases x)
         (auto simp: decodeSessionEdge_def decodeSessionEdgeBody_def tryCatch_def bindE_def
            wellFormedSession_def expiresAtOf_def)
  qed
qed

lemma decodeSession_char:
  "decodeSession file now c =
     Inr (case JSON_parse (base64urlDecode c) of
            None \<Rightarrow> None
          | Some session \<Rightarrow>
              if wellFormedSession session \<and> now \<le> expiresAtOf session \<and> userResolves file session
              then Some session else None)"
proof (cases "JSON_parse (base64urlDecode c)")
  case None
  then show ?thesis
    by (simp add: decodeSession_def decodeSessionBody_def tryCatch_def)
next
  case (Some session)
  show ?thesis
  proof (cases "session = JNull \<or> session = JUndefined")
    case True
    then show ?thesis using Some
      by (auto simp: decodeSession_def decodeSessionBody_def tryCatch_def bindE_def
            wellFormedSession_def)
  next
    case False
    then obtain u t x where p: "getProp session ''username'' = Inr u"
      "getProp session ''token'' = Inr t" "getProp session ''expiresAt'' = Inr x"
      by (cases session) auto
    show ?thesis
      using Some p
      by (cases u; cases x; cases "findUser file (strOf u)")
         (auto simp: decodeSession_def decodeSessionBody_def tryCatch_def bindE_def
            wellFormedSession_def expiresAtOf_def userResolves_def)
  qed
qed

lemma alice_wf: "wellFormedSession aliceSession" "expiresAtOf aliceSession = 1700086400000"
  "userResolves aliceFile aliceSession"
  by (simp_all add: wellFormedSession_def expiresAtOf_def userResolves_def aliceSession_def
        aliceToken_def bindE_def findUser_alice_plain)

lemma tampered_wf: "wellFormedSession tamperedSession" "expiresAtOf tamperedSession = 9700086400000"
  "userResolves aliceFile tamperedSession"
  by (simp_all add: wellFormedSession_def expiresAtOf_def userResolves_def tamperedSession_def
        aliceToken_def bindE_def findUser_alice_plain)

lemma findUser_absent: "findUser Absent name = Inr None"
  by (simp add: findUser_def loadUsers_def loadUsersBody_def tryCatch_def bindE_def)

text \<open>
  Claim C7. For every cookie value and every time, the decoder with file access is the
  edge decoder followed by the test that the user name still resolves in the user
  store: whenever it returns a session the edge decoder returns the same session, and
  whenever the edge decoder returns null it returns null.
\<close>

theorem decodeSession_refines_edge:
  "decodeSession file now c =
     (case decodeSessionEdge now c of
        Inr (Some session) \<Rightarrow> if userResolves file session then Inr (Some session) else Inr None
      | r \<Rightarrow> r)
   \<and> (\<forall>session. decodeSession file now c = Inr (Some session)
         \<longrightarrow> decodeSessionEdge now c = Inr (Some session))
   \<and> (decodeSessionEdge now c = Inr None \<longrightarrow> decodeSession file now c = Inr None)"
  by (auto simp: decodeSession_char decodeSessionEdge_char split: option.splits)

theorem decodeSession_refines_edge_witness:
  "decodeSession aliceFile aliceLoginTime aliceCookie = Inr (Some aliceSession)
   \<and> decodeSessionEdge aliceLoginTime aliceCookie = Inr (Some aliceSession)
   \<and> decodeSession Absent aliceLoginTime aliceCookie = Inr None
   \<and> decodeSessionEdge 1700086400001 aliceCookie = Inr None
   \<and> decodeSession aliceFile 1700086400001 aliceCookie = Inr None"
proof -
  have full: "decodeSession aliceFile aliceLoginTime aliceCookie = Inr (Some aliceSession)"
    by (simp add: decodeSession_char aliceCookie_parses alice_wf aliceLoginTime_def)
  have edge: "decodeSessionEdge aliceLoginTime aliceCookie = Inr (Some aliceSession)"
    using decodeSession_refines_edge[of aliceFile aliceLoginTime aliceCookie] full by blast
  have late: "decodeSessionEdge 1700086400001 aliceCookie = Inr None"
    by (simp add: decodeSessionEdge_char aliceCookie_parses alice_wf)
  have late_full: "decodeSession aliceFile 1700086400001 aliceCookie = Inr None"
    using decodeSession_refines_edge[of aliceFile 1700086400001 aliceCookie] late by blast
  have "\<not> userResolves Absent aliceSession"
    by (simp add: userResolves_def aliceSession_def bindE_def findUser_absent)
  then have gone: "decodeSession Absent aliceLoginTime aliceCookie = Inr None"
    using decodeSession_refines_edge[of Absent aliceLoginTime aliceCookie] edge by simp
  show ?thesis
    using full edge gone late late_full by blast
qed

text \<open>
  Claim C2 as stated fails at the boundary: the cookie that \<open>createSession\<close> writes for
  alice at time T still decodes, in both variants, at the time T + 24 h exactly.
\<close>

theorem decodeSession_at_expiry_counterexample:
  "createSession (Inr aliceToken) aliceLoginTime aliceLoginTime False (Inr None) aliceRecord
     = Inr (aliceToken, CookieSet \<lparr>cookieValue = aliceCookie, httpOnly = True, secure = False,
              sameSite = ''lax'', expires = aliceLoginTime + SESSION_DURATION_MS, path = ''/''\<rparr>)
   \<and> decodeSession aliceFile (aliceLoginTime + SESSION_DURATION_MS) aliceCookie = Inr (Some aliceSession)
   \<and> decodeSessionEdge (aliceLoginTime + SESSION_DURATION_MS) aliceCookie = Inr (Some aliceSession)"
proof -
  have "decodeSession aliceFile (aliceLoginTime + SESSION_DURATION_MS) aliceCookie = Inr (Some aliceSession)"
    and "decodeSessionEdge (aliceLoginTime + SESSION_DURATION_MS) aliceCookie = Inr (Some aliceSession)"
    by (simp_all add: decodeSession_char decodeSessionEdge_char aliceCookie_parses
          alice_wf aliceLoginTime_def SESSION_DURATION_MS_def)
  then show ?thesis
    using createSession_alice by blast
qed

text \<open>
  Claim C2, amended. Let \<open>createSession\<close> at time T write a cookie for a user whose
  \<^verbatim>\<open>username\<close> is a non-empty string and whose \<^verbatim>\<open>displayName\<close> is a string or missing.
  The cookie expires at T + 24 h and its value reads back, through base64url and JSON,
  as the session structure that was written. At every time up to and including
  T + 24 h the edge decoder returns that structure, and at every later time null; the
  decoder with file access does the same as long as the user name resolves in the user
  store, and returns null otherwise.
\<close>

theorem decodeSession_until_expiry:
  assumes "createSession randomBytes T T2 production cookieStore user = Inr (sessionToken, CookieSet ck)"
    and "0 \<le> T" and "sessionToken \<noteq> []"
    and "getProp user ''username'' = Inr (JStr name)" and "name \<noteq> []"
    and "getProp user ''displayName'' = Inr displayName"
    and "displayName = JUndefined \<or> (\<exists>d. displayName = JStr d)"
  shows "expires ck = T + SESSION_DURATION_MS
       \<and> JSON_parse (base64urlDecode (cookieValue ck))
           = Some (readBack (sessionData (JStr name) displayName sessionToken T2 (T + SESSION_DURATION_MS)))
       \<and> decodeSessionEdge now (cookieValue ck)
           = (if now \<le> T + SESSION_DURATION_MS
              then Inr (Some (readBack (sessionData (JStr name) displayName sessionToken T2
                                 (T + SESSION_DURATION_MS))))
              else Inr None)
       \<and> decodeSession file now (cookieValue ck)
           = (if now \<le> T + SESSION_DURATION_MS \<and> (\<exists>u. findUser file name = Inr (Some u))
              then Inr (Some (readBack (sessionData (JStr name) displayName sessionToken T2
                                 (T + SESSION_DURATION_MS))))
              else Inr None)"
proof -
  define session where
    "session = readBack (sessionData (JStr name) displayName sessionToken T2 (T + SESSION_DURATION_MS))"
  have ck: "expires ck = T + SESSION_DURATION_MS"
    "cookieValue ck = encodeSession (sessionData (JStr name) displayName sessionToken T2 (T + SESSION_DURATION_MS))"
    using assms(1,4,6)
    by (auto simp: createSession_def createSessionBody_def generateSessionToken_def tryCatch_def
          bindE_def Let_def split: sum.splits)
  have parse: "JSON_parse (base64urlDecode (cookieValue ck)) = Some session"
    unfolding ck(2) session_def by (rule sessionData_roundtrip[OF assms(7)])
  have nz: "T + SESSION_DURATION_MS \<noteq> 0"
    using assms(2) by (simp add: SESSION_DURATION_MS_def)
  have fields: "getProp session ''username'' = Inr (JStr name)"
    "getProp session ''token'' = Inr (JStr sessionToken)"
    "getProp session ''expiresAt'' = Inr (JNum (T + SESSION_DURATION_MS))"
    using assms(7) by (auto simp: session_def sessionData_def)
  have wf: "wellFormedSession session" "expiresAtOf session = T + SESSION_DURATION_MS"
    using fields nz assms(3,5) by (simp_all add: wellFormedSession_def expiresAtOf_def)
  have res: "userResolves file session \<longleftrightarrow> (\<exists>u. findUser file name = Inr (Some u))"
    using fields(1) by (cases "findUser file name") (auto simp: userResolves_def bindE_def)
  show ?thesis
    unfolding session_def[symmetric]
    using ck(1) parse wf res by (simp add: decodeSessionEdge_char decodeSession_char)
qed

theorem decodeSession_until_expiry_witness:
  "createSession (Inr aliceToken) aliceLoginTime aliceLoginTime False (Inr None) aliceRecord
     = Inr (aliceToken, CookieSet \<lparr>cookieValue = aliceCookie, httpOnly = True, secure = False,
              sameSite = ''lax'', expires = aliceLoginTime + SESSION_DURATION_MS, path = ''/''\<rparr>)
   \<and> decodeSessionEdge aliceLoginTime aliceCookie = Inr (Some aliceSession)
   \<and> decodeSession aliceFile (aliceLoginTime + SESSION_DURATION_MS) aliceCookie = Inr (Some aliceSession)
   \<and> decodeSession aliceFile (aliceLoginTime + SESSION_DURATION_MS + 1) aliceCookie = Inr None
   \<and> decodeSessionEdge (aliceLoginTime + SESSION_DURATION_MS + 1) aliceCookie = Inr None"
proof -
  have h: "0 \<le> aliceLoginTime" "aliceToken \<noteq> []"
    "getProp aliceRecord ''username'' = Inr (JStr ''alice'')" "''alice'' \<noteq> []"
    "getProp aliceRecord ''displayName'' = Inr JUndefined"
    "JUndefined = JUndefined \<or> (\<exists>d. JUndefined = JStr d)"
    by (simp_all add: aliceLoginTime_def aliceToken_def aliceRecord_def)
  have s: "readBack (sessionData (JStr ''alice'') JUndefined aliceToken aliceLoginTime
             (aliceLoginTime + SESSION_DURATION_MS)) = aliceSession"
    by (simp add: sessionData_def aliceSession_def aliceLoginTime_def SESSION_DURATION_MS_def)
  note t = decodeSession_until_expiry[OF createSession_alice h, unfolded s, simplified]
  show ?thesis
    using t[of aliceLoginTime aliceFile]
      t[of "aliceLoginTime + SESSION_DURATION_MS" aliceFile]
      t[of "aliceLoginTime + SESSION_DURATION_MS + 1" aliceFile]
      createSession_alice findUser_alice_plain
    by (simp add: SESSION_DURATION_MS_def)
qed

text \<open>
  Claim C3 fails on the code: the cookie carries no signature. Changing one character of
  alice's cookie, the 151st from \<^verbatim>\<open>E\<close> to \<^verbatim>\<open>k\<close>, turns the first digit of \<^verbatim>\<open>expiresAt\<close> from
  1 to 9. One millisecond after the real expiry the genuine cookie is rejected, and the
  tampered one is decoded, by both variants, to a session that runs until the year 2277.
\<close>

theorem decodeSession_accepts_tampered:
  "aliceCookie ! 150 = CHR ''E'' \<and> tamperedCookie = aliceCookie[150 := CHR ''k'']
   \<and> decodeSession aliceFile 1700086400001 aliceCookie = Inr None
   \<and> decodeSession aliceFile 1700086400001 tamperedCookie = Inr (Some tamperedSession)
   \<and> decodeSessionEdge 1700086400001 tamperedCookie = Inr (Some tamperedSession)"
proof -
  have "aliceCookie ! 150 = CHR ''E''" by code_simp
  then show ?thesis
    by (simp add: decodeSession_char decodeSessionEdge_char aliceCookie_parses tamperedCookie_parses
          alice_wf tampered_wf) (simp add: tamperedCookie_def)
qed

section \<open>Failure results of the public operations\<close>

text \<open>
  Claim C6 as stated fails for session destruction: when the cookie store is not
  available, \<open>destroySession\<close> does not return a result, it throws the error again.
\<close>

theorem destroySession_throws_counterexample:
  "destroySession aliceFile 1700000000000 (Inl CookieStoreError) = Inl CookieStoreError"
  by (simp add: destroySession_def destroySessionBody_def tryCatch_def bindE_def)

lemma decodeSession_returns: "\<exists>r. decodeSession file now c = Inr r"
  by (simp add: decodeSession_def tryCatch_null)

lemma destroySession_eq:
  "destroySession file now cookieStore =
     (case cookieStore of Inl e \<Rightarrow> Inl e | Inr sessionCookie \<Rightarrow> Inr CookieDeleted)"
proof (cases cookieStore)
  case (Inl e)
  then show ?thesis
    by (simp add: destroySession_def destroySessionBody_def tryCatch_def bindE_def)
next
  case (Inr v)
  obtain r where "decodeSession file now (the v) = Inr r"
    using decodeSession_returns by blast
  then show ?thesis
    using Inr
    by (cases v) (simp_all add: destroySession_def destroySessionBody_def tryCatch_def bindE_def)
qed

lemma getProp_cases:
  "getProp v name = (if v = JNull \<or> v = JUndefined then Inl TypeError else Inr (case getProp v name of Inr x \<Rightarrow> x | Inl e \<Rightarrow> JUndefined))"
  by (cases v) auto

lemma createSession_eq:
  "createSession randomBytes now1 now2 production cookieStore user =
     (if user = JNull \<or> user = JUndefined then Inl TypeError
      else case randomBytes of
        Inl e \<Rightarrow> Inl TokenGenerationError
      | Inr sessionToken \<Rightarrow>
          (case cookieStore of
             Inl e \<Rightarrow> Inl e
           | Inr store \<Rightarrow> createSessionBody randomBytes now1 now2 production cookieStore user))"
proof (cases "user = JNull \<or> user = JUndefined")
  case True
  then show ?thesis
    by (cases randomBytes)
       (auto simp: createSession_def createSessionBody_def generateSessionToken_def tryCatch_def
          bindE_def Let_def)
next
  case False
  then obtain u d where "getProp user ''username'' = Inr u" "getProp user ''displayName'' = Inr d"
    by (cases user) auto
  then show ?thesis
    using False
    by (cases randomBytes; cases cookieStore)
       (auto simp: createSession_def createSessionBody_def generateSessionToken_def tryCatch_def
          bindE_def Let_def)
qed

lemma verifyCredentials_returns: "\<exists>r. fst (verifyCredentials file compare clock username password st) = Inr r"
  by (cases "verifyCredentialsBody file compare clock username password st")
     (simp add: verifyCredentials_def tryCatch_null)

text \<open>
  \<open>verifyCredentials\<close> returns a user record only from its last line: the arguments are
  strings, the name is not locked out, it resolves in the store to that record, and
  \<^verbatim>\<open>bcrypt.compare\<close> has answered true for its hash.
\<close>

lemma verifyCredentials_accepts:
  assumes "fst (verifyCredentials file compare (now1, now2, now3) username password st) = Inr (Some found)"
  shows "\<exists>u p h. username = JStr u \<and> password = JStr p
           \<and> \<not> fst (isLockedOut now1 now2 u st)
           \<and> findUser file u = Inr (Some found)
           \<and> getProp found ''passwordHash'' = Inr h \<and> compare p h = Inr True"
proof -
  obtain r st' where body: "verifyCredentialsBody file compare (now1, now2, now3) username password st = (r, st')"
    by (cases "verifyCredentialsBody file compare (now1, now2, now3) username password st")
  have r: "r = Inr (Some found)"
    using assms by (cases r) (simp_all add: verifyCredentials_def body tryCatch_def)
  obtain u where u: "username = JStr u"
    using body r by (cases username) (simp_all add: verifyCredentialsBody_def)
  obtain p where p: "password = JStr p"
    using body r by (cases password) (simp_all add: verifyCredentialsBody_def u split: if_splits)
  obtain locked st1 where l: "isLockedOut now1 now2 u st = (locked, st1)"
    by (cases "isLockedOut now1 now2 u st")
  have nl: "\<not> locked"
    using body r by (cases locked) (simp_all add: verifyCredentialsBody_def u p l split: if_splits)
  have f: "findUser file u = Inr (Some found)
           \<and> (\<exists>h. getProp found ''passwordHash'' = Inr h \<and> compare p h = Inr True)"
    using body r nl
    by (auto simp: verifyCredentialsBody_def u p l bindE_def
             split: if_splits sum.splits option.splits)
  show ?thesis
    using u p l nl f by auto
qed

lemma verifyCredentials_bcrypt_throws:
  "fst (verifyCredentials file (\<lambda>p h. Inl BcryptError) (now1, now2, now3) username password st) = Inr None"
proof -
  obtain r where r: "fst (verifyCredentials file (\<lambda>p h. Inl BcryptError) (now1, now2, now3) username password st) = Inr r"
    using verifyCredentials_returns by blast
  show ?thesis
  proof (cases r)
    case None
    then show ?thesis using r by simp
  next
    case (Some found)
    then have "\<exists>p h. (Inl BcryptError :: error + bool) = Inr True"
      using verifyCredentials_accepts[where compare="\<lambda>p h. Inl BcryptError" and found=found] r by blast
    then show ?thesis by simp
  qed
qed

lemma findUser_Unreadable: "findUser Unreadable u = Inr None"
  by (simp add: findUser_def loadUsers_def loadUsersBody_def tryCatch_def bindE_def)

lemma verifyCredentials_unreadable:
  "fst (verifyCredentials Unreadable compare (now1, now2, now3) username password st) = Inr None"
proof -
  obtain r where r: "fst (verifyCredentials Unreadable compare (now1, now2, now3) username password st) = Inr r"
    using verifyCredentials_returns by blast
  show ?thesis
  proof (cases r)
    case None
    then show ?thesis using r by simp
  next
    case (Some found)
    then have "\<exists>u. findUser Unreadable u = Inr (Some found)"
      using verifyCredentials_accepts[where compare=compare and found=found] r by blast
    then show ?thesis by (simp add: findUser_Unreadable)
  qed
qed

lemma loadUsers_catch: "loadUsers file = Inr (case loadUsersBody file of Inl e \<Rightarrow> [] | Inr users \<Rightarrow> users)"
  by (cases "loadUsersBody file") (simp_all add: loadUsers_def tryCatch_def)

lemma loadUsers_Unreadable: "loadUsers Unreadable = Inr []"
  by (simp add: loadUsers_def loadUsersBody_def tryCatch_def)

lemma isRateLimited_answer:
  "fst (isRateLimited t rnd t2 ip m) = (MAX_REQUESTS \<le> length (activeAt t m ip))"
  by (simp add: isRateLimited_def activeAt_def Let_def)

lemma logoutPOST_eq:
  "logoutPOST file now cookieStore =
     Inr (case cookieStore of
            Inl e \<Rightarrow> (errorResponse 500 ''Failed to logout'', None)
          | Inr sessionCookie \<Rightarrow>
              (\<lparr>status = 200,
                payload = JObj [(''success'', JBool True), (''message'', JStr ''Logout successful'')]\<rparr>,
               Some CookieDeleted))"
  by (cases cookieStore) (simp_all add: logoutPOST_def destroySession_eq tryCatch_def bindE_def)

lemma loginPOST_returns: "\<exists>r cookie. fst (loginPOST e requestBody st) = Inr (r, cookie)"
proof -
  obtain r st' where b: "loginBody e requestBody st = (r, st')" by (cases "loginBody e requestBody st")
  show ?thesis
  proof (cases r)
    case (Inl err)
    then show ?thesis by (simp add: loginPOST_def b tryCatch_def)
  next
    case (Inr v)
    then show ?thesis by (cases v) (simp add: loginPOST_def b tryCatch_def)
  qed
qed

lemma loginPOST_unreadable_body:
  "fst (loginPOST e (Inl err) st) = Inr (errorResponse 400 ''Invalid request'', None)"
  by (simp add: loginPOST_def loginBody_def bindE_def tryCatch_def)

lemma loginPOST_session_failure:
  assumes "getProp body ''username'' = Inr (JStr username)"
    and "getProp body ''password'' = Inr (JStr password)"
    and "trim username \<noteq> []" and "password \<noteq> []"
    and "isValidUtf8 (envEncode e) (envDecodeFatal e) username"
    and "isValidUtf8 (envEncode e) (envDecodeFatal e) password"
    and "3 \<le> length (sanitizeInput username)" and "length (sanitizeInput username) \<le> 100"
    and "8 \<le> length password" and "length password \<le> 128"
    and "fst (verifyCredentials (envFile e) (envCompare e) (envVerifyClock e)
                (JStr (sanitizeInput username)) (JStr password) st) = Inr (Some found)"
    and "createSession (envRandomBytes e) (fst (envSessionClock e)) (snd (envSessionClock e))
           (envProduction e) (envCookies e) found = Inl err"
  shows "fst (loginPOST e (Inr body) st) = Inr (errorResponse 500 ''Failed to create session'', None)"
proof -
  have ne: "username \<noteq> []" using assms(3) by (auto simp: trim_def)
  obtain st' where v: "verifyCredentials (envFile e) (envCompare e) (envVerifyClock e)
                (JStr (sanitizeInput username)) (JStr password) st = (Inr (Some found), st')"
    using assms(11)
    by (cases "verifyCredentials (envFile e) (envCompare e) (envVerifyClock e)
                (JStr (sanitizeInput username)) (JStr password) st") simp
  have "fst (loginBody e (Inr body) st) = Inr (errorResponse 500 ''Failed to create session'', None)"
    unfolding loginBody_def loginBody_fields[OF assms(1,2)]
    using ne assms(3-10) assms(12) by (simp add: Let_def v)
  then show ?thesis
    by (cases "loginBody e (Inr body) st") (simp add: loginPOST_def tryCatch_def)
qed

text \<open>
  The login handler answers 200, and writes a cookie, only on its last path: after
  \<open>verifyCredentials\<close> has returned a user and \<open>createSession\<close> the session.
\<close>

lemma loginPOST_success:
  assumes "fst (loginPOST e requestBody st) = Inr (answer, cookie)" and "status answer = 200 \<or> cookie \<noteq> None"
  shows "\<exists>body name pw verified sessionToken c.
           requestBody = Inr body
         \<and> getProp body ''username'' = Inr (JStr name) \<and> getProp body ''password'' = Inr (JStr pw)
         \<and> fst (verifyCredentials (envFile e) (envCompare e) (envVerifyClock e)
                  (JStr (sanitizeInput name)) (JStr pw) st) = Inr (Some verified)
         \<and> createSession (envRandomBytes e) (fst (envSessionClock e)) (snd (envSessionClock e))
              (envProduction e) (envCookies e) verified = Inr (sessionToken, c)
         \<and> status answer = 200 \<and> cookie = Some c"
proof -
  obtain b st' where b: "loginBody e requestBody st = (b, st')" by (cases "loginBody e requestBody st")
  have r: "b = Inr (answer, cookie)"
    using assms by (cases b) (auto simp: loginPOST_def b tryCatch_def errorResponse_def)
  obtain body where body: "requestBody = Inr body"
    using b r by (cases requestBody) (simp_all add: loginBody_def bindE_def)
  obtain username password where f: "getProp body ''username'' = Inr username"
    "getProp body ''password'' = Inr password"
    using b r body by (auto simp: loginBody_def bindE_def split: sum.splits)
  have b2: "loginBody e (Inr body) st = (Inr (answer, cookie), st')" using b r body by simp
  obtain name where name: "username = JStr name"
    using b2 assms(2) unfolding loginBody_def loginBody_fields[OF f]
    by (cases username) (auto simp: errorResponse_def)
  obtain pw where pw: "password = JStr pw"
    using b2 assms(2) unfolding loginBody_def loginBody_fields[OF f] name
    by (cases password) (auto simp: errorResponse_def split: if_splits)
  show ?thesis
    using b2 assms(2) unfolding loginBody_def loginBody_fields[OF f] name pw
    by (auto simp: body f name pw Let_def errorResponse_def bindE_def
             split: if_splits prod.splits sum.splits option.splits)
qed

text \<open>
  Claim C6, amended. Credential verification returns a result for every input and every
  failure inside it, and the result is a user record only when the arguments are
  strings, the name is not locked out and resolves in the store to that record, and
  \<^verbatim>\<open>bcrypt.compare\<close> has answered true: in every other case, a \<^verbatim>\<open>bcrypt.compare\<close> that throws
  and a users file that cannot be read among them, it is null. Both session decoders
  return null for a value that does not parse, that fails the structure or the expiry
  test or (full variant) whose user does not resolve, and the session otherwise. The
  load of the user store returns the empty sequence whenever its body throws. The
  rate-limit check answers true exactly when the key has 10 or more requests in the
  window. Session destruction throws exactly when the cookie store fails, with that
  error. Session creation throws a TypeError on a user that is null, the
  token-generation error when the random source fails, and the error of the cookie
  store when that fails. Neither reaches the request boundary: the logout handler
  answers 200 with the cookie deleted, or 500 when the cookie store failed; the login
  handler answers every request, with 400 when the request body cannot be read, with
  500 and no cookie when the session of a verified user cannot be created, and with 200
  or a cookie only when verification has returned a user and the session was created.
\<close>

theorem core_failure_results:
  "(\<exists>r. fst (verifyCredentials file compare (now1, now2, now3) username password st) = Inr r)
   \<and> (fst (verifyCredentials file compare (now1, now2, now3) username password st) = Inr (Some found)
        \<longrightarrow> (\<exists>u p h. username = JStr u \<and> password = JStr p
               \<and> \<not> fst (isLockedOut now1 now2 u st)
               \<and> findUser file u = Inr (Some found)
               \<and> getProp found ''passwordHash'' = Inr h \<and> compare p h = Inr True))
   \<and> fst (verifyCredentials file (\<lambda>p h. Inl BcryptError) (now1, now2, now3) username password st) = Inr None
   \<and> fst (verifyCredentials Unreadable compare (now1, now2, now3) username password st) = Inr None
   \<and> decodeSession file now c
        = Inr (case JSON_parse (base64urlDecode c) of
                 None \<Rightarrow> None
               | Some session \<Rightarrow>
                   if wellFormedSession session \<and> now \<le> expiresAtOf session \<and> userResolves file session
                   then Some session else None)
   \<and> decodeSessionEdge now c
        = Inr (case JSON_parse (base64urlDecode c) of
                 None \<Rightarrow> None
               | Some session \<Rightarrow>
                   if wellFormedSession session \<and> now \<le> expiresAtOf session then Some session else None)
   \<and> loadUsers file = Inr (case loadUsersBody file of Inl e \<Rightarrow> [] | Inr users \<Rightarrow> users)
   \<and> loadUsers Unreadable = Inr []
   \<and> fst (isRateLimited t rnd t2 ip m) = (MAX_REQUESTS \<le> length (activeAt t m ip))
   \<and> destroySession file now cookieStore
        = (case cookieStore of Inl e \<Rightarrow> Inl e | Inr sessionCookie \<Rightarrow> Inr CookieDeleted)
   \<and> createSession randomBytes now1 now2 production cookieStore user
        = (if user = JNull \<or> user = JUndefined then Inl TypeError
           else case randomBytes of
             Inl e \<Rightarrow> Inl TokenGenerationError
           | Inr sessionToken \<Rightarrow>
               (case cookieStore of
                  Inl e \<Rightarrow> Inl e
                | Inr store \<Rightarrow> createSessionBody randomBytes now1 now2 production cookieStore user))
   \<and> logoutPOST file now cookieStore
        = Inr (case cookieStore of
                 Inl e \<Rightarrow> (errorResponse 500 ''Failed to logout'', None)
               | Inr sessionCookie \<Rightarrow>
                   (\<lparr>status = 200,
                     payload = JObj [(''success'', JBool True), (''message'', JStr ''Logout successful'')]\<rparr>,
                    Some CookieDeleted))
   \<and> (\<exists>r cookie. fst (loginPOST e requestBody st) = Inr (r, cookie))
   \<and> (fst (loginPOST e requestBody st) = Inr (answer, written) \<and> (status answer = 200 \<or> written \<noteq> None)
        \<longrightarrow> (\<exists>body name pw verified sessionToken cookie.
               requestBody = Inr body
             \<and> getProp body ''username'' = Inr (JStr name) \<and> getProp body ''password'' = Inr (JStr pw)
             \<and> fst (verifyCredentials (envFile e) (envCompare e) (envVerifyClock e)
                      (JStr (sanitizeInput name)) (JStr pw) st) = Inr (Some verified)
             \<and> createSession (envRandomBytes e) (fst (envSessionClock e)) (snd (envSessionClock e))
                  (envProduction e) (envCookies e) verified = Inr (sessionToken, cookie)
             \<and> status answer = 200 \<and> written = Some cookie))
   \<and> fst (loginPOST e (Inl err) st) = Inr (errorResponse 400 ''Invalid request'', None)
   \<and> (getProp body ''username'' = Inr (JStr name) \<and> getProp body ''password'' = Inr (JStr pw)
        \<and> trim name \<noteq> [] \<and> pw \<noteq> []
        \<and> isValidUtf8 (envEncode e) (envDecodeFatal e) name
        \<and> isValidUtf8 (envEncode e) (envDecodeFatal e) pw
        \<and> 3 \<le> length (sanitizeInput name) \<and> length (sanitizeInput name) \<le> 100
        \<and> 8 \<le> length pw \<and> length pw \<le> 128
        \<and> fst (verifyCredentials (envFile e) (envCompare e) (envVerifyClock e)
                  (JStr (sanitizeInput name)) (JStr pw) st) = Inr (Some verified)
        \<and> createSession (envRandomBytes e) (fst (envSessionClock e)) (snd (envSessionClock e))
             (envProduction e) (envCookies e) verified = Inl err
        \<longrightarrow> fst (loginPOST e (Inr body) st) = Inr (errorResponse 500 ''Failed to create session'', None))"
proof -
  have accepts: "fst (verifyCredentials file compare (now1, now2, now3) username password st) = Inr (Some found)
        \<longrightarrow> (\<exists>u p h. username = JStr u \<and> password = JStr p
               \<and> \<not> fst (isLockedOut now1 now2 u st)
               \<and> findUser file u = Inr (Some found)
               \<and> getProp found ''passwordHash'' = Inr h \<and> compare p h = Inr True)"
    using verifyCredentials_accepts[where compare=compare and found=found and st=st] by blast
  have session: "getProp body ''username'' = Inr (JStr name) \<and> getProp body ''password'' = Inr (JStr pw)
        \<and> trim name \<noteq> [] \<and> pw \<noteq> []
        \<and> isValidUtf8 (envEncode e) (envDecodeFatal e) name
        \<and> isValidUtf8 (envEncode e) (envDecodeFatal e) pw
        \<and> 3 \<le> length (sanitizeInput name) \<and> length (sanitizeInput name) \<le> 100
        \<and> 8 \<le> length pw \<and> length pw \<le> 128
        \<and> fst (verifyCredentials (envFile e) (envCompare e) (envVerifyClock e)
                  (JStr (sanitizeInput name)) (JStr pw) st) = Inr (Some verified)
        \<and> createSession (envRandomBytes e) (fst (envSessionClock e)) (snd (envSessionClock e))
             (envProduction e) (envCookies e) verified = Inl err
        \<longrightarrow> fst (loginPOST e (Inr body) st) = Inr (errorResponse 500 ''Failed to create session'', None)"
    using loginPOST_session_failure[where e=e and st=st and body=body and username=name
            and password=pw and found=verified and err=err]
    by blast
  have success: "fst (loginPOST e requestBody st) = Inr (answer, written) \<and> (status answer = 200 \<or> written \<noteq> None)
        \<longrightarrow> (\<exists>body name pw verified sessionToken cookie.
               requestBody = Inr body
             \<and> getProp body ''username'' = Inr (JStr name) \<and> getProp body ''password'' = Inr (JStr pw)
             \<and> fst (verifyCredentials (envFile e) (envCompare e) (envVerifyClock e)
                      (JStr (sanitizeInput name)) (JStr pw) st) = Inr (Some verified)
             \<and> createSession (envRandomBytes e) (fst (envSessionClock e)) (snd (envSessionClock e))
                  (envProduction e) (envCookies e) verified = Inr (sessionToken, cookie)
             \<and> status answer = 200 \<and> written = Some cookie)"
    using loginPOST_success[where e=e and st=st and requestBody=requestBody and answer=answer
            and cookie=written]
    by blast
  show ?thesis
    by (intro conjI)
       (rule success verifyCredentials_returns accepts verifyCredentials_bcrypt_throws
          verifyCredentials_unreadable decodeSession_char decodeSessionEdge_char loadUsers_catch
          loadUsers_Unreadable isRateLimited_answer destroySession_eq createSession_eq logoutPOST_eq
          loginPOST_returns loginPOST_unreadable_body session)+
qed

lemma sanitize_alice: "sanitizeInput ''alice'' = ''alice''" "trim ''alice'' \<noteq> []"
  by code_simp+

lemma verify_alice_plain:
  "fst (verifyCredentials aliceFile idealCompare (1000, 1000, 3500) (JStr ''alice'') (JStr ''pw12345678'')
         Map.empty) = Inr (Some aliceRecord)"
proof -
  have l: "fst (isLockedOut 1000 1000 ''alice'' Map.empty) = False"
    by (simp add: isLockedOut_def)
  have h: "getProp aliceRecord ''passwordHash'' = Inr (JStr (idealHash ''pw12345678''))"
    by (simp add: aliceRecord_def)
  show ?thesis
    by (rule verify_correct_password[where compare=idealCompare,
          OF sanitize_alice(2) _ l findUser_alice_plain h idealCompare_exact]) simp
qed

lemma login_alice:
  "fst (loginPOST aliceEnv (Inr (loginRequest ''alice'' ''pw12345678'')) Map.empty)
     = Inr (aliceWelcome, Some aliceSetCookie)"
proof -
  obtain st' where v: "verifyCredentials aliceFile idealCompare (1000, 1000, 3500) (JStr ''alice'')
                         (JStr ''pw12345678'') Map.empty = (Inr (Some aliceRecord), st')"
    using verify_alice_plain
    by (cases "verifyCredentials aliceFile idealCompare (1000, 1000, 3500) (JStr ''alice'')
                 (JStr ''pw12345678'') Map.empty") simp
  have u: "isValidUtf8 (envEncode aliceEnv) (envDecodeFatal aliceEnv) s" for s
    by (simp add: isValidUtf8_def aliceEnv_def tryCatch_def bindE_def)
  have g: "getProp (loginRequest ''alice'' ''pw12345678'') ''username'' = Inr (JStr ''alice'')"
    "getProp (loginRequest ''alice'' ''pw12345678'') ''password'' = Inr (JStr ''pw12345678'')"
    by (simp_all add: loginRequest_def)
  have p: "getProp aliceRecord ''username'' = Inr (JStr ''alice'')"
    "getProp aliceRecord ''displayName'' = Inr JUndefined"
    by (simp_all add: aliceRecord_def)
  have "fst (loginBody aliceEnv (Inr (loginRequest ''alice'' ''pw12345678'')) Map.empty)
          = Inr (aliceWelcome, Some aliceSetCookie)"
    unfolding loginBody_def loginBody_fields[OF g]
    using u sanitize_alice
    by (simp add: Let_def aliceEnv_def v createSession_alice p bindE_def aliceWelcome_def
          aliceSetCookie_def)
  then show ?thesis
    by (cases "loginBody aliceEnv (Inr (loginRequest ''alice'' ''pw12345678'')) Map.empty")
       (simp add: loginPOST_def tryCatch_def)
qed

theorem core_failure_results_witness:
  "destroySession aliceFile aliceLoginTime (Inl CookieStoreError) = Inl CookieStoreError
   \<and> destroySession aliceFile aliceLoginTime (Inr (Some aliceCookie)) = Inr CookieDeleted
   \<and> createSession (Inl RandomBytesError) aliceLoginTime aliceLoginTime False (Inr None) aliceRecord
       = Inl TokenGenerationError
   \<and> createSession (Inr aliceToken) aliceLoginTime aliceLoginTime False (Inl CookieStoreError) aliceRecord
       = Inl CookieStoreError
   \<and> createSession (Inr aliceToken) aliceLoginTime aliceLoginTime False (Inr None) JNull = Inl TypeError
   \<and> fst (verifyCredentials aliceFile idealCompare (1000, 1000, 3500) (JStr ''alice'') (JStr ''pw12345678'')
            Map.empty) = Inr (Some aliceRecord)
   \<and> fst (verifyCredentials aliceFile (\<lambda>p h. Inl BcryptError) (1000, 1000, 3500) (JStr ''alice'')
            (JStr ''pw12345678'') Map.empty) = Inr None
   \<and> fst (verifyCredentials Unreadable idealCompare (1000, 1000, 3500) (JStr ''alice'') (JStr ''pw12345678'')
            Map.empty) = Inr None
   \<and> idealCompare ''pw12345678'' (JStr (idealHash ''pw12345678'')) = Inr True
   \<and> fst (loginPOST (aliceEnv\<lparr>envRandomBytes := Inl RandomBytesError\<rparr>)
            (Inr (loginRequest ''alice'' ''pw12345678'')) Map.empty)
       = Inr (errorResponse 500 ''Failed to create session'', None)
   \<and> fst (loginPOST aliceEnv (Inl BodyParseError) Map.empty)
       = Inr (errorResponse 400 ''Invalid request'', None)
   \<and> logoutPOST aliceFile aliceLoginTime (Inl CookieStoreError)
       = Inr (errorResponse 500 ''Failed to logout'', None)
   \<and> fst (loginPOST aliceEnv (Inr (loginRequest ''alice'' ''pw12345678'')) Map.empty)
       = Inr (aliceWelcome, Some aliceSetCookie)
   \<and> status aliceWelcome = 200
   \<and> (\<exists>verified sessionToken.
          fst (verifyCredentials (envFile aliceEnv) (envCompare aliceEnv) (envVerifyClock aliceEnv)
                 (JStr (sanitizeInput ''alice'')) (JStr ''pw12345678'') Map.empty) = Inr (Some verified)
        \<and> createSession (envRandomBytes aliceEnv) (fst (envSessionClock aliceEnv))
             (snd (envSessionClock aliceEnv)) (envProduction aliceEnv) (envCookies aliceEnv) verified
            = Inr (sessionToken, aliceSetCookie))"
proof -
  have n: "aliceRecord \<noteq> JNull" "aliceRecord \<noteq> JUndefined"
    by (simp_all add: aliceRecord_def)
  define e where "e = aliceEnv\<lparr>envRandomBytes := Inl RandomBytesError\<rparr>"
  have v: "isValidUtf8 (envEncode e) (envDecodeFatal e) s" for s
    by (simp add: isValidUtf8_def aliceEnv_def e_def tryCatch_def bindE_def)
  have g: "getProp (loginRequest ''alice'' ''pw12345678'') ''username'' = Inr (JStr ''alice'')"
    "getProp (loginRequest ''alice'' ''pw12345678'') ''password'' = Inr (JStr ''pw12345678'')"
    by (simp_all add: loginRequest_def)
  have ver: "fst (verifyCredentials (envFile e) (envCompare e) (envVerifyClock e)
                (JStr (sanitizeInput ''alice'')) (JStr ''pw12345678'') Map.empty) = Inr (Some aliceRecord)"
    using verify_alice_plain by (simp add: e_def aliceEnv_def sanitize_alice(1))
  have cs: "createSession (envRandomBytes e) (fst (envSessionClock e)) (snd (envSessionClock e))
              (envProduction e) (envCookies e) aliceRecord = Inl TokenGenerationError"
    using core_failure_results[where now=aliceLoginTime and ?now1.0=aliceLoginTime
            and ?now2.0=aliceLoginTime and production=False and user=aliceRecord
            and cookieStore="Inr None" and randomBytes="Inl RandomBytesError"] n
    by (simp add: e_def aliceEnv_def)
  have login: "fst (loginPOST e (Inr (loginRequest ''alice'' ''pw12345678'')) Map.empty)
                 = Inr (errorResponse 500 ''Failed to create session'', None)"
    using core_failure_results[where e=e and st=Map.empty and body="loginRequest ''alice'' ''pw12345678''"
            and name="''alice''" and pw="''pw12345678''" and verified=aliceRecord
            and err=TokenGenerationError]
      g v ver cs sanitize_alice
    by simp
  have ok: "status aliceWelcome = 200" by (simp add: aliceWelcome_def)
  have "\<exists>body name pw verified sessionToken cookie.
           (Inr (loginRequest ''alice'' ''pw12345678'') :: error + jsval) = Inr body
         \<and> getProp body ''username'' = Inr (JStr name) \<and> getProp body ''password'' = Inr (JStr pw)
         \<and> fst (verifyCredentials (envFile aliceEnv) (envCompare aliceEnv) (envVerifyClock aliceEnv)
                  (JStr (sanitizeInput name)) (JStr pw) Map.empty) = Inr (Some verified)
         \<and> createSession (envRandomBytes aliceEnv) (fst (envSessionClock aliceEnv))
              (snd (envSessionClock aliceEnv)) (envProduction aliceEnv) (envCookies aliceEnv) verified
             = Inr (sessionToken, cookie)
         \<and> status aliceWelcome = 200 \<and> Some aliceSetCookie = Some cookie"
    using core_failure_results[where e=aliceEnv and st=Map.empty
            and requestBody="Inr (loginRequest ''alice'' ''pw12345678'')"
            and answer=aliceWelcome and written="Some aliceSetCookie"
            and ?file=aliceFile and compare=idealCompare and ?now1.0=1000 and ?now2.0=1000
            and ?now3.0=3500 and username="JStr ''alice''" and password="JStr ''pw12345678''"
            and found=aliceRecord and now=aliceLoginTime and c=aliceCookie and t=1000 and rnd=1
            and ?t2.0=1000 and ip="''10.0.0.1''" and m="[]" and cookieStore="Inr None"
            and randomBytes="Inr aliceToken" and production=False and user=aliceRecord
            and err=BodyParseError and body=JNull and name="''alice''" and pw="''pw12345678''"
            and verified=aliceRecord]
      login_alice ok
    by blast
  then have created: "\<exists>verified sessionToken.
          fst (verifyCredentials (envFile aliceEnv) (envCompare aliceEnv) (envVerifyClock aliceEnv)
                 (JStr (sanitizeInput ''alice'')) (JStr ''pw12345678'') Map.empty) = Inr (Some verified)
        \<and> createSession (envRandomBytes aliceEnv) (fst (envSessionClock aliceEnv))
             (snd (envSessionClock aliceEnv)) (envProduction aliceEnv) (envCookies aliceEnv) verified
            = Inr (sessionToken, aliceSetCookie)"
    using g by auto
  have rest: "destroySession aliceFile aliceLoginTime (Inl CookieStoreError) = Inl CookieStoreError
   \<and> destroySession aliceFile aliceLoginTime (Inr (Some aliceCookie)) = Inr CookieDeleted
   \<and> createSession (Inl RandomBytesError) aliceLoginTime aliceLoginTime False (Inr None) aliceRecord
       = Inl TokenGenerationError
   \<and> createSession (Inr aliceToken) aliceLoginTime aliceLoginTime False (Inl CookieStoreError) aliceRecord
       = Inl CookieStoreError
   \<and> createSession (Inr aliceToken) aliceLoginTime aliceLoginTime False (Inr None) JNull = Inl TypeError
   \<and> fst (verifyCredentials aliceFile (\<lambda>p h. Inl BcryptError) (1000, 1000, 3500) (JStr ''alice'')
            (JStr ''pw12345678'') Map.empty) = Inr None
   \<and> fst (verifyCredentials Unreadable idealCompare (1000, 1000, 3500) (JStr ''alice'') (JStr ''pw12345678'')
            Map.empty) = Inr None
   \<and> fst (loginPOST aliceEnv (Inl BodyParseError) Map.empty)
       = Inr (errorResponse 400 ''Invalid request'', None)
   \<and> logoutPOST aliceFile aliceLoginTime (Inl CookieStoreError)
       = Inr (errorResponse 500 ''Failed to logout'', None)"
    using core_failure_results[where now=aliceLoginTime and ?now1.0=aliceLoginTime
            and ?now2.0=aliceLoginTime and production=False and user=aliceRecord
            and cookieStore="Inl CookieStoreError" and randomBytes="Inr aliceToken"
            and e=aliceEnv and err=BodyParseError and st=Map.empty]
      core_failure_results[where now=aliceLoginTime and ?now1.0=aliceLoginTime
            and ?now2.0=aliceLoginTime and production=False and user=aliceRecord
            and cookieStore="Inr (Some aliceCookie)" and randomBytes="Inr aliceToken"]
      core_failure_results[where now=aliceLoginTime and ?now1.0=aliceLoginTime
            and ?now2.0=aliceLoginTime and production=False and user=aliceRecord
            and cookieStore="Inr None" and randomBytes="Inl RandomBytesError"]
      core_failure_results[where now=aliceLoginTime and ?now1.0=aliceLoginTime
            and ?now2.0=aliceLoginTime and production=False and user=JNull
            and cookieStore="Inr None" and randomBytes="Inr aliceToken"]
      core_failure_results[where ?now1.0=1000 and ?now2.0=1000 and ?now3.0=3500
            and username="JStr ''alice''" and password="JStr ''pw12345678''" and st=Map.empty]
      n
    by simp
  show ?thesis
    using rest verify_alice_plain idealCompare_exact login login_alice ok created
    by (simp add: e_def)
qed

section \<open>Properties of the login handler\<close>

text \<open>
  Claim C10 as stated fails for a user name of blanks only: it is a present, non-empty,
  valid string whose sanitised length is 0, and the handler answers 400
  \<^verbatim>\<open>Username is required\<close>, not 401.
\<close>

theorem login_blank_username_counterexample:
  "getProp (loginRequest ''   '' ''pw12345678'') ''username'' = Inr (JStr ''   '')
   \<and> ''   '' \<noteq> []
   \<and> isValidUtf8 (envEncode aliceEnv) (envDecodeFatal aliceEnv) ''   ''
   \<and> isValidUtf8 (envEncode aliceEnv) (envDecodeFatal aliceEnv) ''pw12345678''
   \<and> length (sanitizeInput ''   '') < 3
   \<and> loginPOST aliceEnv (Inr (loginRequest ''   '' ''pw12345678'')) Map.empty
       = (Inr (errorResponse 400 ''Username is required'', None), Map.empty)"
proof -
  have t: "trim ''   '' = []" "length (sanitizeInput ''   '') < 3"
    by code_simp+
  have v: "isValidUtf8 (envEncode aliceEnv) (envDecodeFatal aliceEnv) s" for s
    by (simp add: isValidUtf8_def aliceEnv_def tryCatch_def bindE_def)
  have "loginPOST aliceEnv (Inr (loginRequest ''   '' ''pw12345678'')) Map.empty
          = (Inr (errorResponse 400 ''Username is required'', None), Map.empty)"
    using t(1) by (simp add: loginPOST_def loginBody_def loginRequest_def bindE_def tryCatch_def)
  then show ?thesis
    using t(2) v by (simp add: loginRequest_def)
qed

text \<open>
  Claim C10, amended. For every login request whose user name and password are strings,
  the name not blank, the password not empty, both valid UTF-8, and whose sanitised
  name is shorter than 3 or longer than 100 or whose password is shorter than 8 or
  longer than 128, the handler answers 401 \<^verbatim>\<open>Invalid credentials\<close> and the map of login
  attempts is the one before the request, for every user name. The answer does not
  depend on the users file, on bcrypt or on the clock: verification is not reached.
\<close>

theorem login_length_rejected:
  assumes "getProp body ''username'' = Inr (JStr username)"
    and "getProp body ''password'' = Inr (JStr password)"
    and "trim username \<noteq> []" and "password \<noteq> []"
    and "isValidUtf8 (envEncode e) (envDecodeFatal e) username"
    and "isValidUtf8 (envEncode e) (envDecodeFatal e) password"
    and "length (sanitizeInput username) < 3 \<or> length (sanitizeInput username) > 100
         \<or> length password < 8 \<or> length password > 128"
  shows "loginPOST e (Inr body) st = (Inr (errorResponse 401 ''Invalid credentials'', None), st)"
proof -
  have ne: "username \<noteq> []" using assms(3) by (auto simp: trim_def)
  have "loginBody e (Inr body) st = (Inr (errorResponse 401 ''Invalid credentials'', None), st)"
    unfolding loginBody_def loginBody_fields[OF assms(1,2)]
    using ne assms(3-7) by (auto simp: Let_def)
  then show ?thesis
    by (simp add: loginPOST_def tryCatch_def)
qed

theorem login_length_rejected_witness:
  "trim ''ab'' \<noteq> [] \<and> length (sanitizeInput ''ab'') < 3
   \<and> loginPOST aliceEnv (Inr (loginRequest ''ab'' ''pw12345678'')) Map.empty
       = (Inr (errorResponse 401 ''Invalid credentials'', None), Map.empty)
   \<and> loginPOST aliceEnv (Inr (loginRequest ''alice'' ''short'')) Map.empty
       = (Inr (errorResponse 401 ''Invalid credentials'', None), Map.empty)"
proof -
  have t: "trim ''ab'' \<noteq> []" "length (sanitizeInput ''ab'') < 3" "trim ''alice'' \<noteq> []"
    by code_simp+
  have v: "isValidUtf8 (envEncode aliceEnv) (envDecodeFatal aliceEnv) s" for s
    by (simp add: isValidUtf8_def aliceEnv_def tryCatch_def bindE_def)
  have g: "getProp (loginRequest u p) ''username'' = Inr (JStr u)"
    "getProp (loginRequest u p) ''password'' = Inr (JStr p)" for u p
    by (simp_all add: loginRequest_def)
  show ?thesis
    using login_length_rejected[where e=aliceEnv and st=Map.empty, OF g(1) g(2) t(1) _ v v, of "''pw12345678''"]
      login_length_rejected[where e=aliceEnv and st=Map.empty, OF g(1) g(2) t(3) _ v v, of "''short''"] t
    by simp
qed

end
